theory Spec2Isabelle
  imports Main "HOL-Library.Word"
begin

unbundle bit_operations_syntax

section \<open>Machine types and the tunables of MemoryManager.h\<close>

text \<open>
  \<open>size_t\<close> and pointers are 64-bit words (an LP64 build); the null pointer is \<open>0\<close>.
  \<open>FREE_BLOCK_HEADER_SIZE\<close> is \<open>sizeof(FreeBlock)\<close>, a \<open>size_t\<close> followed by a pointer,
  which is 16 bytes on such a build.
\<close>

type_synonym size_t = "64 word"
type_synonym addr = "64 word"

definition MIN_USER_SIZE :: size_t where "MIN_USER_SIZE = 8"
definition MAX_USER_SIZE :: size_t where "MAX_USER_SIZE = 2048"
definition BLOCK_ALIGNMENT :: size_t where "BLOCK_ALIGNMENT = 8"
definition PAGE_SIZE :: size_t where "PAGE_SIZE = 4096"
definition MAX_GLOBAL_FREE_MEMORY :: size_t where "MAX_GLOBAL_FREE_MEMORY = 10 * 1024 * 1024"
definition RESERVE_BLOCK_COUNT :: size_t where "RESERVE_BLOCK_COUNT = 4"
definition FREE_BLOCK_HEADER_SIZE :: size_t where "FREE_BLOCK_HEADER_SIZE = 16"

record MemoryStats =
  allocate_count :: size_t
  deallocate_count :: size_t
  total_free_memory :: size_t
  total_used_memory :: size_t
  total_allocated_memory :: size_t

section \<open>Memory and the system allocator\<close>

text \<open>
  The store holds the \<open>FreeBlock\<close> objects by address: \<open>blk_size m b\<close> is \<open>b->size\<close> and
  \<open>blk_next m b\<close> is \<open>b->next\<close>. Memory that was never written holds whatever the
  store says, as uninitialised memory does.

  \<open>malloc\<close> and \<open>free\<close> belong to the C library, not to the repository. They are
  modelled as an environment that keeps the chunks it has handed out (\<open>live\<close>, each with
  its size), the chunks it got back (\<open>freed\<close>, the latest first) and a break pointer
  behind which the memory is fresh.

  Which chunk \<open>malloc\<close> returns is the library's choice, and it may be one that \<open>free\<close>
  received before. The memory carries the decisions the library takes at its coming
  calls: fresh memory, the \<open>i\<close>-th chunk it got back (when that one is large enough), or
  failure. With no decision left it takes fresh memory, and it returns null when the
  address space is exhausted.

  \<open>free\<close> of null does nothing. \<open>free\<close> of a pointer that is not a chunk handed out and
  not yet given back is the abort of the C library: \<open>None\<close>. Neither call writes a header.
\<close>

datatype choice = Fresh | Reuse nat | Fail

record memory =
  blk_size :: "addr \<Rightarrow> size_t"
  blk_next :: "addr \<Rightarrow> addr"
  brk :: addr
  live :: "(addr \<times> size_t) list"
  freed :: "(addr \<times> size_t) list"
  choices :: "choice list"

definition alignUp :: "size_t \<Rightarrow> size_t \<Rightarrow> size_t" where
  "alignUp v alignment = (v + alignment - 1) AND NOT (alignment - 1)"

definition fresh_chunk :: "size_t \<Rightarrow> memory \<Rightarrow> addr \<times> memory" where
  "fresh_chunk n m =
     (if brk m = 0 \<or> 2 ^ 64 \<le> unat (brk m) + unat n + 15 then (0, m)
      else (brk m, m\<lparr>brk := brk m + alignUp n 16, live := (brk m, n) # live m\<rparr>))"

text \<open>A chunk that can be handed out again for \<open>n\<close> bytes: large enough, not at null and
  inside the address space.\<close>

definition fits :: "size_t \<Rightarrow> addr \<times> size_t \<Rightarrow> bool" where
  "fits n c \<longleftrightarrow> n \<le> snd c \<and> fst c \<noteq> 0 \<and> unat (fst c) + unat (snd c) < 2 ^ 64"

definition sys_malloc :: "size_t \<Rightarrow> memory \<Rightarrow> addr \<times> memory" where
  "sys_malloc n m =
     (case choices m of
        [] \<Rightarrow> fresh_chunk n m
      | c # cs \<Rightarrow>
          (case c of
             Fresh \<Rightarrow> fresh_chunk n (m\<lparr>choices := cs\<rparr>)
           | Fail \<Rightarrow> (0, m\<lparr>choices := cs\<rparr>)
           | Reuse i \<Rightarrow>
               if i < length (freed m) \<and> fits n (freed m ! i)
               then (fst (freed m ! i),
                     m\<lparr>choices := cs,
                       freed := take i (freed m) @ drop (Suc i) (freed m),
                       live := (freed m ! i) # live m\<rparr>)
               else fresh_chunk n (m\<lparr>choices := cs\<rparr>)))"

definition sys_free :: "addr \<Rightarrow> memory \<Rightarrow> memory option" where
  "sys_free p m =
     (if p = 0 then Some m
      else
        (case find (\<lambda>c. fst c = p) (live m) of
           None \<Rightarrow> None
         | Some c \<Rightarrow>
             Some (m\<lparr>live := filter (\<lambda>c. fst c \<noteq> p) (live m), freed := c # freed m\<rparr>)))"

section \<open>BaseMemoryPool\<close>

record BaseMemoryPool =
  block_sizes_m :: "size_t list"
  free_lists_m :: "addr list"
  free_block_counts_m :: "size_t list"
  allocate_count_m :: size_t
  deallocate_count_m :: size_t
  total_free_memory_m :: size_t
  total_allocated_memory_m :: size_t

definition calcAlignedTotalSize :: "size_t \<Rightarrow> size_t" where
  "calcAlignedTotalSize user_size =
     alignUp ((if user_size = 0 then MIN_USER_SIZE else user_size) + FREE_BLOCK_HEADER_SIZE)
       BLOCK_ALIGNMENT"

text \<open>\<open>std::lower_bound\<close> on a sorted vector: the position of the first element that is
  not less than the value.\<close>

definition lower_bound :: "size_t list \<Rightarrow> size_t \<Rightarrow> nat" where
  "lower_bound xs v = length (takeWhile (\<lambda>x. x < v) xs)"

text \<open>The source returns the \<open>int\<close> index or \<open>-1\<close>; \<open>None\<close> stands for \<open>-1\<close>.\<close>

definition findBlockSizeIndex :: "BaseMemoryPool \<Rightarrow> size_t \<Rightarrow> nat option" where
  "findBlockSizeIndex P total_size =
     (let it = lower_bound (block_sizes_m P) total_size
      in if it < length (block_sizes_m P) \<and> block_sizes_m P ! it = total_size
         then Some it else None)"

definition insert_at :: "nat \<Rightarrow> 'a \<Rightarrow> 'a list \<Rightarrow> 'a list" where
  "insert_at i x xs = take i xs @ x # drop i xs"

definition addBlockSizeIfNotExist :: "BaseMemoryPool \<Rightarrow> size_t \<Rightarrow> nat \<times> BaseMemoryPool" where
  "addBlockSizeIfNotExist P total_size =
     (case findBlockSizeIndex P total_size of
        Some index \<Rightarrow> (index, P)
      | None \<Rightarrow>
          (let index = lower_bound (block_sizes_m P) total_size
           in (index,
               P\<lparr>block_sizes_m := insert_at index total_size (block_sizes_m P),
                 free_lists_m := insert_at index 0 (free_lists_m P),
                 free_block_counts_m := insert_at index 0 (free_block_counts_m P)\<rparr>)))"

definition empty_pool :: BaseMemoryPool where
  "empty_pool = \<lparr>block_sizes_m = [], free_lists_m = [], free_block_counts_m = [],
     allocate_count_m = 0, deallocate_count_m = 0, total_free_memory_m = 0,
     total_allocated_memory_m = 0\<rparr>"

text \<open>The constructor's loop runs \<open>user_size\<close> from \<open>MIN_USER_SIZE\<close> to \<open>MAX_USER_SIZE\<close>
  in steps of \<open>BLOCK_ALIGNMENT\<close>.\<close>

definition seed_user_sizes :: "size_t list" where
  "seed_user_sizes =
     map (\<lambda>k. MIN_USER_SIZE + of_nat k * BLOCK_ALIGNMENT)
       [0 ..< Suc (unat ((MAX_USER_SIZE - MIN_USER_SIZE) div BLOCK_ALIGNMENT))]"

definition BaseMemoryPool_new :: BaseMemoryPool where
  "BaseMemoryPool_new =
     foldl (\<lambda>P user_size. snd (addBlockSizeIfNotExist P (calcAlignedTotalSize user_size)))
       empty_pool seed_user_sizes"

text \<open>One round of the threading loop of \<open>allocateBatch\<close>: slot \<open>i\<close> of the page gets its
  header, and is linked behind the previous slot or becomes the list head.\<close>

definition thread_block ::
  "addr \<Rightarrow> size_t \<Rightarrow> nat \<Rightarrow> addr \<times> BaseMemoryPool \<times> memory \<Rightarrow> nat
     \<Rightarrow> addr \<times> BaseMemoryPool \<times> memory" where
  "thread_block page total_size index st i =
     (case st of (prev, P, m) \<Rightarrow>
        (let block = page + of_nat i * total_size;
             m1 = m\<lparr>blk_size := (blk_size m)(block := total_size),
                    blk_next := (blk_next m)(block := 0)\<rparr>
         in if prev \<noteq> 0
            then (block, P, m1\<lparr>blk_next := (blk_next m1)(prev := block)\<rparr>)
            else (block, P\<lparr>free_lists_m := (free_lists_m P)[index := block]\<rparr>, m1)))"

definition allocateBatch ::
  "size_t \<Rightarrow> nat \<Rightarrow> BaseMemoryPool \<times> memory \<Rightarrow> bool \<times> BaseMemoryPool \<times> memory" where
  "allocateBatch total_size index st =
     (case st of (P, m) \<Rightarrow>
        if length (block_sizes_m P) \<le> index then (False, P, m)
        else if total_size = 0 \<or> PAGE_SIZE < total_size then (False, P, m)
        else
          (let block_count = PAGE_SIZE div total_size
           in if block_count = 0 then (False, P, m)
              else
                (case sys_malloc PAGE_SIZE m of (page, m1) \<Rightarrow>
                   if page = 0 then (False, P, m1)
                   else
                     (case foldl (thread_block page total_size index) (0, P, m1)
                             [0 ..< unat block_count] of
                        (prev, P2, m2) \<Rightarrow>
                          (True,
                           P2\<lparr>free_block_counts_m :=
                                (free_block_counts_m P2)
                                  [index := free_block_counts_m P2 ! index + block_count],
                              total_free_memory_m :=
                                total_free_memory_m P2 + total_size * block_count,
                              total_allocated_memory_m :=
                                total_allocated_memory_m P2 + PAGE_SIZE\<rparr>,
                           m2)))))"

text \<open>The walk of \<open>reclaimIdleMemory\<close> towards the first block to release: at most \<open>n\<close>
  rounds, each reading \<open>release_head->next\<close>. Reading through a null \<open>release_head\<close>
  is the crash \<open>None\<close>.\<close>

fun reclaim_walk :: "memory \<Rightarrow> nat \<Rightarrow> addr \<Rightarrow> addr \<Rightarrow> (addr \<times> addr) option" where
  "reclaim_walk m 0 prev release_head = Some (prev, release_head)"
| "reclaim_walk m (Suc n) prev release_head =
     (if release_head = 0 then None
      else if blk_next m release_head = 0 then Some (prev, release_head)
      else reclaim_walk m n release_head (blk_next m release_head))"

text \<open>The body of the loop of \<open>reclaimIdleMemory\<close> for class \<open>i\<close>. A block size of zero
  makes \<open>PAGE_SIZE / total_size\<close> a division by zero, which is \<open>None\<close> as well, and so is
  a \<open>release_head\<close> that \<open>free\<close> does not accept.\<close>

definition reclaim_class ::
  "nat \<Rightarrow> size_t \<times> BaseMemoryPool \<times> memory \<Rightarrow> (size_t \<times> BaseMemoryPool \<times> memory) option" where
  "reclaim_class i st =
     (case st of (reclaimed_size, P, m) \<Rightarrow>
        (let total_size = block_sizes_m P ! i;
             current_count = free_block_counts_m P ! i
         in if current_count \<le> RESERVE_BLOCK_COUNT then Some st
            else if total_size = 0 then None
            else
              (let blocks_per_page = PAGE_SIZE div total_size
               in if blocks_per_page = 0 then Some st
                  else
                    (let release_count =
                           ((current_count - RESERVE_BLOCK_COUNT) div blocks_per_page)
                             * blocks_per_page
                     in if release_count = 0 then Some st
                        else
                          (let remaining = current_count - release_count
                           in case reclaim_walk m (unat (remaining - 1)) 0 (free_lists_m P ! i) of
                                None \<Rightarrow> None
                              | Some (prev, release_head) \<Rightarrow>
                                  if release_head = 0 then Some st
                                  else
                                    (let m1 = (if prev \<noteq> 0
                                               then m\<lparr>blk_next := (blk_next m)(prev := 0)\<rparr>
                                               else m);
                                         P1 = (if prev \<noteq> 0 then P
                                               else P\<lparr>free_lists_m := (free_lists_m P)[i := 0]\<rparr>)
                                     in case sys_free release_head m1 of
                                          None \<Rightarrow> None
                                        | Some m2 \<Rightarrow>
                                            Some
                                              (reclaimed_size + total_size * release_count,
                                               P1\<lparr>free_block_counts_m :=
                                                    (free_block_counts_m P1)
                                                      [i := free_block_counts_m P1 ! i
                                                              - release_count],
                                                  total_free_memory_m :=
                                                    total_free_memory_m P1
                                                      - total_size * release_count\<rparr>,
                                               m2)))))))"

text \<open>A loop whose body may crash: the first \<open>None\<close> ends the run.\<close>

fun for_each :: "('a \<Rightarrow> 's \<Rightarrow> 's option) \<Rightarrow> 'a list \<Rightarrow> 's \<Rightarrow> 's option" where
  "for_each f [] s = Some s"
| "for_each f (x # xs) s = (case f x s of None \<Rightarrow> None | Some s' \<Rightarrow> for_each f xs s')"

definition reclaimIdleMemory ::
  "BaseMemoryPool \<times> memory \<Rightarrow> (size_t \<times> BaseMemoryPool \<times> memory) option" where
  "reclaimIdleMemory st =
     (case st of (P, m) \<Rightarrow> for_each reclaim_class [0 ..< length (block_sizes_m P)] (0, P, m))"

definition allocate :: "size_t \<Rightarrow> BaseMemoryPool \<times> memory \<Rightarrow> addr \<times> BaseMemoryPool \<times> memory" where
  "allocate user_size st =
     (case st of (P, m) \<Rightarrow>
        if MAX_USER_SIZE < user_size then (0, P, m)
        else
          (let total_size = calcAlignedTotalSize user_size
           in case (case findBlockSizeIndex P total_size of
                      Some index \<Rightarrow> (index, P)
                    | None \<Rightarrow> addBlockSizeIfNotExist P total_size) of
                (index, P1) \<Rightarrow>
                  (case (if free_lists_m P1 ! index = 0
                         then allocateBatch total_size index (P1, m)
                         else (True, P1, m)) of
                     (ok, P2, m2) \<Rightarrow>
                       if \<not> ok then (0, P2, m2)
                       else
                         (let block = free_lists_m P2 ! index
                          in (block + FREE_BLOCK_HEADER_SIZE,
                              P2\<lparr>free_lists_m := (free_lists_m P2)[index := blk_next m2 block],
                                 free_block_counts_m :=
                                   (free_block_counts_m P2)
                                     [index := free_block_counts_m P2 ! index - 1],
                                 total_free_memory_m := total_free_memory_m P2 - blk_size m2 block,
                                 allocate_count_m := allocate_count_m P2 + 1\<rparr>,
                              m2)))))"

definition deallocate ::
  "addr \<Rightarrow> BaseMemoryPool \<times> memory \<Rightarrow> (BaseMemoryPool \<times> memory) option" where
  "deallocate user_ptr st =
     (case st of (P, m) \<Rightarrow>
        if user_ptr = 0 then Some (P, m)
        else
          (let block = user_ptr - FREE_BLOCK_HEADER_SIZE;
               total_size = blk_size m block
           in if total_size = 0 \<or> total_size < calcAlignedTotalSize MIN_USER_SIZE
              then map_option (Pair P) (sys_free user_ptr m)
              else
                (case findBlockSizeIndex P total_size of
                   None \<Rightarrow> map_option (Pair P) (sys_free user_ptr m)
                 | Some index \<Rightarrow>
                     Some
                       (P\<lparr>free_lists_m := (free_lists_m P)[index := block],
                          free_block_counts_m :=
                            (free_block_counts_m P)[index := free_block_counts_m P ! index + 1],
                          total_free_memory_m := total_free_memory_m P + total_size,
                          deallocate_count_m := deallocate_count_m P + 1\<rparr>,
                        m\<lparr>blk_next := (blk_next m)(block := free_lists_m P ! index)\<rparr>))))"

text \<open>\<open>while (last->next) last = last->next;\<close> does not return on a cyclic list.\<close>

partial_function (option) find_last :: "memory \<Rightarrow> addr \<Rightarrow> addr option" where
  "find_last m last_block =
     (if blk_next m last_block = 0 then Some last_block
      else find_last m (blk_next m last_block))"

definition transfer_class ::
  "nat \<Rightarrow> BaseMemoryPool \<times> BaseMemoryPool \<times> memory
     \<Rightarrow> (BaseMemoryPool \<times> BaseMemoryPool \<times> memory) option" where
  "transfer_class i st =
     (case st of (src, dest, m) \<Rightarrow>
        if free_lists_m src ! i = 0 then Some st
        else
          (let total_size = block_sizes_m src ! i
           in case (case findBlockSizeIndex dest total_size of
                      Some dest_index \<Rightarrow> (dest_index, dest)
                    | None \<Rightarrow> addBlockSizeIfNotExist dest total_size) of
                (dest_index, dest1) \<Rightarrow>
                  (case find_last m (free_lists_m src ! i) of
                     None \<Rightarrow> None
                   | Some last_block \<Rightarrow>
                       (let m1 = m\<lparr>blk_next := (blk_next m)(last_block := free_lists_m dest1 ! dest_index)\<rparr>;
                            block_count = free_block_counts_m src ! i
                        in Some
                             (src\<lparr>free_lists_m := (free_lists_m src)[i := 0],
                                  free_block_counts_m := (free_block_counts_m src)[i := 0],
                                  total_free_memory_m :=
                                    total_free_memory_m src - total_size * block_count\<rparr>,
                              dest1\<lparr>free_lists_m := (free_lists_m dest1)[dest_index := free_lists_m src ! i],
                                    free_block_counts_m :=
                                      (free_block_counts_m dest1)
                                        [dest_index := free_block_counts_m dest1 ! dest_index + block_count],
                                    total_free_memory_m :=
                                      total_free_memory_m dest1 + total_size * block_count\<rparr>,
                              m1)))))"

text \<open>\<open>src.transferTo(dest)\<close> for two distinct pool objects.\<close>

definition transferTo ::
  "BaseMemoryPool \<times> BaseMemoryPool \<times> memory \<Rightarrow> (BaseMemoryPool \<times> BaseMemoryPool \<times> memory) option" where
  "transferTo st =
     (case st of (src, dest, m) \<Rightarrow> for_each transfer_class [0 ..< length (free_lists_m src)] st)"

definition getStats :: "BaseMemoryPool \<Rightarrow> MemoryStats" where
  "getStats P =
     \<lparr>allocate_count = allocate_count_m P,
      deallocate_count = deallocate_count_m P,
      total_free_memory = total_free_memory_m P,
      total_used_memory = total_allocated_memory_m P - total_free_memory_m P,
      total_allocated_memory = total_allocated_memory_m P\<rparr>"

section \<open>GlobalMemoryPool, ThreadLocalMemoryPool and MemoryManager\<close>

text \<open>The global pool is its inner \<open>BaseMemoryPool\<close>; the mutex serialises the calls, so
  each call is one atomic step on that pool.\<close>

definition GlobalMemoryPool_allocate ::
  "size_t \<Rightarrow> BaseMemoryPool \<times> memory \<Rightarrow> addr \<times> BaseMemoryPool \<times> memory" where
  "GlobalMemoryPool_allocate user_size st = allocate user_size st"

definition GlobalMemoryPool_deallocate ::
  "addr \<Rightarrow> BaseMemoryPool \<times> memory \<Rightarrow> (BaseMemoryPool \<times> memory) option" where
  "GlobalMemoryPool_deallocate user_ptr st =
     (case deallocate user_ptr st of
        None \<Rightarrow> None
      | Some (G, m) \<Rightarrow>
          if MAX_GLOBAL_FREE_MEMORY < total_free_memory (getStats G)
          then (case reclaimIdleMemory (G, m) of
                  None \<Rightarrow> None
                | Some (reclaimed, G', m') \<Rightarrow> Some (G', m'))
          else Some (G, m))"

definition GlobalMemoryPool_transferFrom ::
  "BaseMemoryPool \<times> BaseMemoryPool \<times> memory
     \<Rightarrow> (BaseMemoryPool \<times> BaseMemoryPool \<times> memory) option" where
  "GlobalMemoryPool_transferFrom st =
     (case transferTo st of
        None \<Rightarrow> None
      | Some (src, G, m) \<Rightarrow>
          if MAX_GLOBAL_FREE_MEMORY < total_free_memory (getStats G)
          then (case reclaimIdleMemory (G, m) of
                  None \<Rightarrow> None
                | Some (reclaimed, G', m') \<Rightarrow> Some (src, G', m'))
          else Some (src, G, m))"

definition ThreadLocalMemoryPool_allocate ::
  "size_t \<Rightarrow> BaseMemoryPool \<times> memory \<Rightarrow> addr \<times> BaseMemoryPool \<times> memory" where
  "ThreadLocalMemoryPool_allocate user_size st = allocate user_size st"

definition ThreadLocalMemoryPool_deallocate ::
  "addr \<Rightarrow> BaseMemoryPool \<times> memory \<Rightarrow> (BaseMemoryPool \<times> memory) option" where
  "ThreadLocalMemoryPool_deallocate user_ptr st = deallocate user_ptr st"

definition getLocalStats :: "BaseMemoryPool \<Rightarrow> MemoryStats" where
  "getLocalStats P = getStats P"

text \<open>What \<open>MemoryManager\<close> sees from one thread: that thread's \<open>local_pool_\<close>, the
  global singleton and the memory.\<close>

record process =
  local_pool :: BaseMemoryPool
  global_pool :: BaseMemoryPool
  heap :: memory

definition MemoryManager_allocate :: "size_t \<Rightarrow> process \<Rightarrow> addr \<times> process" where
  "MemoryManager_allocate user_size s =
     (case ThreadLocalMemoryPool_allocate user_size (local_pool s, heap s) of
        (p, L, m) \<Rightarrow>
          if p \<noteq> 0 then (p, s\<lparr>local_pool := L, heap := m\<rparr>)
          else
            (case GlobalMemoryPool_allocate user_size (global_pool s, m) of
               (p2, G, m2) \<Rightarrow>
                 if p2 \<noteq> 0 then (p2, s\<lparr>local_pool := L, global_pool := G, heap := m2\<rparr>)
                 else
                   (case sys_malloc (alignUp user_size BLOCK_ALIGNMENT) m2 of
                      (p3, m3) \<Rightarrow> (p3, s\<lparr>local_pool := L, global_pool := G, heap := m3\<rparr>))))"

definition MemoryManager_deallocate :: "addr \<Rightarrow> process \<Rightarrow> process option" where
  "MemoryManager_deallocate user_ptr s =
     (if user_ptr = 0 then Some s
      else
        (case ThreadLocalMemoryPool_deallocate user_ptr (local_pool s, heap s) of
           None \<Rightarrow> None
         | Some (L, m) \<Rightarrow> Some (s\<lparr>local_pool := L, heap := m\<rparr>)))"

section \<open>Specification vocabulary\<close>

text \<open>The three vectors of a pool are parallel and the sizes strictly increasing.\<close>

definition pool_ok :: "BaseMemoryPool \<Rightarrow> bool" where
  "pool_ok P \<longleftrightarrow>
     length (free_lists_m P) = length (block_sizes_m P) \<and>
     length (free_block_counts_m P) = length (block_sizes_m P) \<and>
     sorted_wrt (<) (block_sizes_m P)"

text \<open>The sum over all classes of block size times free count, in \<open>size_t\<close> arithmetic.\<close>

definition free_bytes :: "BaseMemoryPool \<Rightarrow> size_t" where
  "free_bytes P = sum_list (map2 (*) (block_sizes_m P) (free_block_counts_m P))"

text \<open>\<open>free_chain m a bs\<close>: following \<open>next\<close> from \<open>a\<close> visits exactly the blocks \<open>bs\<close> and
  then reaches null. The length of a freelist is the length of that \<open>bs\<close>.\<close>

primrec free_chain :: "memory \<Rightarrow> addr \<Rightarrow> addr list \<Rightarrow> bool" where
  "free_chain m a [] \<longleftrightarrow> a = 0"
| "free_chain m a (b # bs) \<longleftrightarrow> a \<noteq> 0 \<and> a = b \<and> free_chain m (blk_next m a) bs"

text \<open>The sizes that the constructor seeds.\<close>

definition seeded_sizes :: "size_t list" where
  "seeded_sizes = map (\<lambda>k. 24 + 8 * of_nat k) [0 ..< 256]"

text \<open>The pool after the first \<open>n\<close> rounds of the constructor's loop.\<close>

definition seeded_prefix :: "nat \<Rightarrow> BaseMemoryPool" where
  "seeded_prefix n =
     \<lparr>block_sizes_m = map (\<lambda>k. 24 + 8 * of_nat k) [0 ..< n],
      free_lists_m = replicate n 0, free_block_counts_m = replicate n 0,
      allocate_count_m = 0, deallocate_count_m = 0, total_free_memory_m = 0,
      total_allocated_memory_m = 0\<rparr>"

text \<open>Slot \<open>i\<close> of a page cut into blocks of \<open>total_size\<close> bytes, and the memory after the
  threading loop of \<open>allocateBatch\<close> has linked the first \<open>k\<close> slots.\<close>

definition slot :: "addr \<Rightarrow> size_t \<Rightarrow> nat \<Rightarrow> addr" where
  "slot page total_size i = page + of_nat i * total_size"

definition threaded :: "addr \<Rightarrow> size_t \<Rightarrow> nat \<Rightarrow> memory \<Rightarrow> memory \<Rightarrow> bool" where
  "threaded page ts k m m' \<longleftrightarrow>
     brk m' = brk m \<and> live m' = live m \<and> freed m' = freed m \<and> choices m' = choices m \<and>
     (\<forall>x. (\<forall>i<k. x \<noteq> slot page ts i) \<longrightarrow>
            blk_size m' x = blk_size m x \<and> blk_next m' x = blk_next m x) \<and>
     (\<forall>i<k. blk_size m' (slot page ts i) = ts \<and>
             blk_next m' (slot page ts i) = (if Suc i < k then slot page ts (Suc i) else 0))"

text \<open>Class \<open>i\<close> has nothing that \<open>reclaimIdleMemory\<close> would release: at most
  \<open>RESERVE_BLOCK_COUNT\<close> free blocks, or less than one whole page beyond them.\<close>

definition settled :: "BaseMemoryPool \<Rightarrow> nat \<Rightarrow> bool" where
  "settled P i \<longleftrightarrow>
     free_block_counts_m P ! i \<le> RESERVE_BLOCK_COUNT \<or>
     (block_sizes_m P ! i \<noteq> 0 \<and>
      ((free_block_counts_m P ! i - RESERVE_BLOCK_COUNT) div (PAGE_SIZE div block_sizes_m P ! i))
        * (PAGE_SIZE div block_sizes_m P ! i) = 0)"


section \<open>Example states\<close>

text \<open>A memory in which nothing has been allocated yet, and whose \<open>malloc\<close> always takes
  fresh memory.\<close>

definition initial_memory :: memory where
  "initial_memory =
     \<lparr>blk_size = (\<lambda>_. 0), blk_next = (\<lambda>_. 0), brk = 65536, live = [], freed = [],
      choices = []\<rparr>"

text \<open>A pool with the single class of 2064-byte blocks (user size 2048, one block per
  page) holding five free blocks, each the start of its own page; a sixth block, at 24576,
  is in the caller's hands.\<close>

definition five_block_memory :: memory where
  "five_block_memory =
     \<lparr>blk_size = (\<lambda>_. 2064),
      blk_next = (\<lambda>_. 0)(4096 := 8192, 8192 := 12288, 12288 := 16384, 16384 := 20480),
      brk = 28672,
      live = [(24576, 4096), (20480, 4096), (16384, 4096), (12288, 4096), (8192, 4096),
              (4096, 4096)],
      freed = [], choices = []\<rparr>"

definition five_block_pool :: BaseMemoryPool where
  "five_block_pool =
     \<lparr>block_sizes_m = [2064], free_lists_m = [4096], free_block_counts_m = [5],
      allocate_count_m = 6, deallocate_count_m = 5, total_free_memory_m = 10320,
      total_allocated_memory_m = 24576\<rparr>"

text \<open>A thread whose local pool has an empty 2064-byte class, next to a global pool
  that holds the five free blocks.\<close>

definition empty_local_pool :: BaseMemoryPool where
  "empty_local_pool =
     \<lparr>block_sizes_m = [2064], free_lists_m = [0], free_block_counts_m = [0],
      allocate_count_m = 0, deallocate_count_m = 0, total_free_memory_m = 0,
      total_allocated_memory_m = 0\<rparr>"

definition example_process :: process where
  "example_process =
     \<lparr>local_pool = empty_local_pool, global_pool = five_block_pool, heap = five_block_memory\<rparr>"

text \<open>A memory in which \<open>malloc\<close> has handed out one chunk of 4000 bytes directly, as
  \<open>MemoryManager::allocate\<close> does for a size above \<open>MAX_USER_SIZE\<close>.\<close>

definition direct_chunk_memory :: memory where
  "direct_chunk_memory = snd (sys_malloc 4000 initial_memory)"

section \<open>Runs of the public operations\<close>

text \<open>A caller that makes one \<open>allocate\<close> call per listed size and keeps the pointers,
  and one that hands a list of pointers to \<open>deallocate\<close>, one after the other.\<close>

fun allocate_all ::
  "size_t list \<Rightarrow> BaseMemoryPool \<times> memory \<Rightarrow> addr list \<times> BaseMemoryPool \<times> memory" where
  "allocate_all [] st = ([], st)"
| "allocate_all (u # us) st =
     (case allocate u st of
        (p, st1) \<Rightarrow> (case allocate_all us st1 of (ps, st2) \<Rightarrow> (p # ps, st2)))"

fun deallocate_all ::
  "addr list \<Rightarrow> BaseMemoryPool \<times> memory \<Rightarrow> (BaseMemoryPool \<times> memory) option" where
  "deallocate_all [] st = Some st"
| "deallocate_all (p # ps) st =
     (case deallocate p st of None \<Rightarrow> None | Some st1 \<Rightarrow> deallocate_all ps st1)"

text \<open>Five allocations of 2048 bytes on a fresh pool (one block per page), their release
  in the order of allocation, and a call of \<open>reclaimIdleMemory\<close>.\<close>

definition reclaim_scenario :: "(size_t \<times> BaseMemoryPool \<times> memory) option" where
  "reclaim_scenario =
     (case allocate_all [2048, 2048, 2048, 2048, 2048] (BaseMemoryPool_new, initial_memory) of
        (ps, s) \<Rightarrow>
          (case deallocate_all ps s of None \<Rightarrow> None | Some s' \<Rightarrow> reclaimIdleMemory s'))"


text \<open>A memory in which nothing has been allocated yet, and whose \<open>malloc\<close> takes fresh
  memory three times and then hands out again the chunk it got back last.\<close>

definition reusing_memory :: memory where
  "reusing_memory = initial_memory\<lparr>choices := [Fresh, Fresh, Fresh, Reuse 0]\<rparr>"

text \<open>Six allocations of 2032 bytes on a fresh pool (2048-byte blocks, two per page, so
  three pages), their release in the order of allocation, \<open>reclaimIdleMemory\<close>, one
  allocation of 1008 bytes (1024-byte blocks, four per page) and three more allocations of
  2032 bytes.\<close>

definition reuse_scenario :: "(BaseMemoryPool \<times> memory) option" where
  "reuse_scenario =
     (case allocate_all [2032, 2032, 2032, 2032, 2032, 2032]
             (BaseMemoryPool_new, reusing_memory) of
        (ps, s) \<Rightarrow>
          (case deallocate_all ps s of
             None \<Rightarrow> None
           | Some s' \<Rightarrow>
               (case reclaimIdleMemory s' of
                  None \<Rightarrow> None
                | Some (reclaimed, s'') \<Rightarrow>
                    Some (snd (allocate_all [1008, 2032, 2032, 2032] s'')))))"

text \<open>A memory in which nothing has been allocated yet, and whose \<open>malloc\<close> takes fresh
  memory twice and then hands out again the chunk it got back last.\<close>

definition recycling_memory :: memory where
  "recycling_memory = initial_memory\<lparr>choices := [Fresh, Fresh, Reuse 0]\<rparr>"

text \<open>A thread's pool: twelve allocations of 664 bytes (680-byte blocks, six per page, so
  two pages), the release of the twelve blocks (the first two of the first page, four of the
  second page, the first and the fourth block of the second page, then the rest of the
  first page), and \<open>reclaimIdleMemory\<close>.\<close>

definition thread_scenario :: "(BaseMemoryPool \<times> memory) option" where
  "thread_scenario =
     (case allocate_all [664, 664, 664, 664, 664, 664, 664, 664, 664, 664, 664, 664]
             (BaseMemoryPool_new, recycling_memory) of
        (ps, s) \<Rightarrow>
          (case deallocate_all (map ((!) ps) [0, 1, 7, 8, 10, 11, 6, 9, 2, 3, 4, 5]) s of
             None \<Rightarrow> None
           | Some s' \<Rightarrow> map_option snd (reclaimIdleMemory s')))"

text \<open>The thread's pool is then transferred into the fresh global pool, as the thread's exit
  does, and the global pool serves one allocation of 2024 bytes (2040-byte blocks, two per
  page), five of 664 bytes and one more of 2024 bytes (\<open>GlobalMemoryPool::allocate\<close> is
  \<open>allocate\<close> on the inner pool), and last a \<open>GlobalMemoryPool::deallocate\<close> of null.\<close>

definition global_scenario :: "(BaseMemoryPool \<times> memory) option" where
  "global_scenario =
     (case thread_scenario of
        None \<Rightarrow> None
      | Some (T, m) \<Rightarrow>
          (case GlobalMemoryPool_transferFrom (T, BaseMemoryPool_new, m) of
             None \<Rightarrow> None
           | Some (T', G, m') \<Rightarrow>
               GlobalMemoryPool_deallocate 0
                 (snd (allocate_all [2024, 664, 664, 664, 664, 664, 2024] (G, m')))))"

section \<open>The size-class table\<close>

lemma and_not_mask3: "(w::64 word) AND NOT (mask 3) = (w div 8) * 8"
proof -
  have "w AND NOT (mask 3) = push_bit 3 (drop_bit 3 w)"
    by (rule bit_eqI) (auto simp: bit_simps)
  then show ?thesis by (simp add: push_bit_eq_mult drop_bit_eq_div)
qed

lemma alignUp8: "alignUp v 8 = ((v + 7) div 8) * 8"
proof -
  have "alignUp v 8 = (v + 7) AND NOT (mask 3)"
    by (simp add: alignUp_def mask_eq_exp_minus_1 add.commute)
  then show ?thesis by (simp add: and_not_mask3)
qed

lemma unat_alignUp8:
  assumes "unat v + 7 < 2^64"
  shows "unat (alignUp v 8) = ((unat v + 7) div 8) * 8"
proof -
  have a: "unat (v + 7) = unat v + 7"
    using assms by (simp add: unat_word_ariths)
  have b: "unat ((v + 7) div 8) = (unat v + 7) div 8"
    by (simp add: unat_div a)
  have "unat (((v + 7) div 8) * 8) = (unat v + 7) div 8 * 8"
    using assms b by (simp add: unat_word_ariths)
  then show ?thesis by (simp add: alignUp8)
qed

lemma lower_bound_le: "lower_bound xs v \<le> length xs"
  by (simp add: lower_bound_def length_takeWhile_le)

lemma lower_bound_nth:
  assumes "sorted_wrt (<) xs" "i < length xs"
  shows "lower_bound xs (xs ! i) = i"
proof -
  have "takeWhile (\<lambda>x. x < xs ! i) xs = take i xs"
  proof (rule takeWhile_eq_take_P_nth)
    fix j assume "j < i" "j < length xs"
    then show "xs ! j < xs ! i" using assms by (simp add: sorted_wrt_iff_nth_less)
  qed simp
  then show ?thesis using assms by (simp add: lower_bound_def)
qed

lemma find_SomeD:
  "findBlockSizeIndex P ts = Some i \<Longrightarrow> i < length (block_sizes_m P) \<and> block_sizes_m P ! i = ts"
  by (auto simp: findBlockSizeIndex_def Let_def split: if_splits)

lemma find_nth:
  "sorted_wrt (<) (block_sizes_m P) \<Longrightarrow> i < length (block_sizes_m P)
     \<Longrightarrow> findBlockSizeIndex P (block_sizes_m P ! i) = Some i"
  by (simp add: findBlockSizeIndex_def lower_bound_nth)

lemma find_None_notin:
  "sorted_wrt (<) (block_sizes_m P) \<Longrightarrow> findBlockSizeIndex P ts = None
     \<Longrightarrow> ts \<notin> set (block_sizes_m P)"
  by (metis find_nth in_set_conv_nth option.distinct(1))

lemma insert_at_lower_bound:
  "insert_at (lower_bound xs v) v xs = takeWhile (\<lambda>x. x < v) xs @ v # dropWhile (\<lambda>x. x < v) xs"
  by (simp add: insert_at_def lower_bound_def takeWhile_eq_take [symmetric]
      dropWhile_eq_drop [symmetric])

lemma sorted_insert_at:
  assumes "sorted_wrt (<) xs" "v \<notin> set xs"
  shows "sorted_wrt (<) (insert_at (lower_bound xs v) v xs)"
proof -
  let ?tw = "takeWhile (\<lambda>x. x < v) xs" and ?dw = "dropWhile (\<lambda>x. x < v) xs"
  have s: "sorted_wrt (<) (?tw @ ?dw)" using assms(1) by simp
  have tw: "\<forall>x\<in>set ?tw. x < v" by (auto dest: set_takeWhileD)
  have dw: "\<forall>y\<in>set ?dw. v < y"
  proof
    fix y assume y: "y \<in> set ?dw"
    then obtain z zs where dz: "?dw = z # zs" by (cases ?dw) auto
    then have "\<not> z < v" by (metis dropWhile_eq_Cons_conv)
    moreover have "z \<noteq> v" using assms(2) dz by (metis list.set_intros(1) set_dropWhileD)
    ultimately have "v < z" by simp
    moreover have "y = z \<or> z < y" using s y dz by (auto simp: sorted_wrt_append)
    ultimately show "v < y" by auto
  qed
  have parts: "sorted_wrt (<) ?tw" "sorted_wrt (<) ?dw"
    using s unfolding sorted_wrt_append by blast+
  have "sorted_wrt (<) (?tw @ v # ?dw)"
    unfolding sorted_wrt_append sorted_wrt.simps
    using parts tw dw by (auto intro: order.strict_trans)
  then show ?thesis by (simp add: insert_at_lower_bound)
qed

lemma length_insert_at: "i \<le> length xs \<Longrightarrow> length (insert_at i x xs) = Suc (length xs)"
  by (simp add: insert_at_def)

lemma nth_insert_at: "i \<le> length xs \<Longrightarrow> insert_at i x xs ! i = x"
  by (simp add: insert_at_def nth_append)

lemma add_existing:
  "findBlockSizeIndex P ts = Some i \<Longrightarrow> addBlockSizeIfNotExist P ts = (i, P)"
  by (simp add: addBlockSizeIfNotExist_def)

lemma add_new:
  "findBlockSizeIndex P ts = None \<Longrightarrow>
     addBlockSizeIfNotExist P ts =
       (lower_bound (block_sizes_m P) ts,
        P\<lparr>block_sizes_m := insert_at (lower_bound (block_sizes_m P) ts) ts (block_sizes_m P),
          free_lists_m := insert_at (lower_bound (block_sizes_m P) ts) 0 (free_lists_m P),
          free_block_counts_m :=
            insert_at (lower_bound (block_sizes_m P) ts) 0 (free_block_counts_m P)\<rparr>)"
  by (simp add: addBlockSizeIfNotExist_def Let_def)

lemma pool_ok_add:
  assumes "pool_ok P" "addBlockSizeIfNotExist P ts = (i, P')"
  shows "pool_ok P' \<and> i < length (block_sizes_m P') \<and> block_sizes_m P' ! i = ts"
proof (cases "findBlockSizeIndex P ts")
  case (Some j)
  then show ?thesis using assms find_SomeD [OF Some] by (simp add: add_existing)
next
  case None
  have nin: "ts \<notin> set (block_sizes_m P)"
    using assms(1) None by (simp add: pool_ok_def find_None_notin)
  have P': "P' = P\<lparr>block_sizes_m := insert_at i ts (block_sizes_m P),
                 free_lists_m := insert_at i 0 (free_lists_m P),
                 free_block_counts_m := insert_at i 0 (free_block_counts_m P)\<rparr>"
    and i: "i = lower_bound (block_sizes_m P) ts"
    using assms(2) None by (auto simp: add_new)
  have le: "i \<le> length (block_sizes_m P)" using i by (simp add: lower_bound_le)
  show ?thesis
    using assms(1) le nin sorted_insert_at [of "block_sizes_m P" ts]
    by (simp add: P' pool_ok_def length_insert_at nth_insert_at i [symmetric])
qed

section \<open>The freshly constructed pool\<close>

lemma unat_seeded: "k < 256 \<Longrightarrow> unat (24 + 8 * of_nat k :: 64 word) = 24 + 8 * k"
  by (simp add: unat_word_ariths unat_of_nat)

lemma calc_unat:
  assumes "u \<le> MAX_USER_SIZE"
  shows "unat (calcAlignedTotalSize u) = ((unat (if u = 0 then MIN_USER_SIZE else u) + 23) div 8) * 8"
proof -
  let ?u = "if u = 0 then MIN_USER_SIZE else u"
  have le: "unat ?u \<le> 2048"
    using assms by (auto simp: MAX_USER_SIZE_def MIN_USER_SIZE_def word_le_nat_alt)
  have a: "unat (?u + 16) = unat ?u + 16"
    using le by (simp add: unat_word_ariths)
  have "unat (alignUp (?u + 16) 8) = ((unat (?u + 16) + 7) div 8) * 8"
    by (rule unat_alignUp8) (use le a in simp)
  then show ?thesis
    using a by (simp add: calcAlignedTotalSize_def FREE_BLOCK_HEADER_SIZE_def BLOCK_ALIGNMENT_def)
qed

lemma calc_seed:
  assumes "k < 256"
  shows "calcAlignedTotalSize (MIN_USER_SIZE + of_nat k * BLOCK_ALIGNMENT) = 24 + 8 * of_nat k"
proof -
  let ?u = "MIN_USER_SIZE + of_nat k * BLOCK_ALIGNMENT :: 64 word"
  have u: "unat ?u = 8 + 8 * k"
    using assms by (simp add: MIN_USER_SIZE_def BLOCK_ALIGNMENT_def unat_word_ariths unat_of_nat)
  then have nz: "?u \<noteq> 0" by (metis add_is_0 unat_0 zero_neq_numeral)
  have le: "?u \<le> MAX_USER_SIZE"
    using u assms by (simp add: word_le_nat_alt MAX_USER_SIZE_def)
  have "unat (calcAlignedTotalSize ?u) = ((8 + 8 * k + 23) div 8) * 8"
    using calc_unat [OF le] nz u by simp
  also have "\<dots> = 24 + 8 * k" by presburger
  finally have "unat (calcAlignedTotalSize ?u) = unat (24 + 8 * of_nat k :: 64 word)"
    using assms by (simp add: unat_seeded)
  then show ?thesis by (simp only: word_unat_eq_iff)
qed

lemma calc_in_seeded:
  assumes "u \<le> MAX_USER_SIZE"
  shows "\<exists>k<256. calcAlignedTotalSize u = 24 + 8 * of_nat k"
proof -
  let ?u = "if u = 0 then MIN_USER_SIZE else u"
  have ge: "1 \<le> unat ?u"
    by (auto simp: MIN_USER_SIZE_def unat_gt_0 Suc_le_eq)
  have le: "unat ?u \<le> 2048"
    using assms by (auto simp: MAX_USER_SIZE_def MIN_USER_SIZE_def word_le_nat_alt)
  define n where "n = unat ?u"
  define q where "q = (n + 23) div 8"
  have q: "3 \<le> q" "q \<le> 258" using ge le unfolding q_def n_def [symmetric] by linarith+
  have "unat (calcAlignedTotalSize u) = q * 8"
    using calc_unat [OF assms] by (simp add: q_def n_def)
  also have "\<dots> = 24 + 8 * (q - 3)" using q by simp
  also have "\<dots> = unat (24 + 8 * of_nat (q - 3) :: 64 word)"
    by (rule unat_seeded [symmetric]) (use q in simp)
  finally have "calcAlignedTotalSize u = 24 + 8 * of_nat (q - 3)"
    by (simp only: word_unat_eq_iff)
  moreover have "q - 3 < 256" using q by simp
  ultimately show ?thesis by blast
qed

lemma seed_user_sizes_eq:
  "seed_user_sizes = map (\<lambda>k. MIN_USER_SIZE + of_nat k * BLOCK_ALIGNMENT) [0 ..< 256]"
proof -
  have "unat ((MAX_USER_SIZE - MIN_USER_SIZE) div BLOCK_ALIGNMENT) = 255"
    by (simp add: MAX_USER_SIZE_def MIN_USER_SIZE_def BLOCK_ALIGNMENT_def)
  then show ?thesis by (simp add: seed_user_sizes_def)
qed

lemma length_seeded [simp]: "length seeded_sizes = 256"
  by (simp add: seeded_sizes_def)

lemma nth_seeded: "k < 256 \<Longrightarrow> seeded_sizes ! k = 24 + 8 * of_nat k"
  by (simp add: seeded_sizes_def)

lemma sorted_seeded: "sorted_wrt (<) seeded_sizes"
  unfolding sorted_wrt_iff_nth_less
  by (auto simp: nth_seeded word_less_nat_alt unat_seeded)

lemma lower_bound_all_less: "\<forall>x\<in>set xs. x < v \<Longrightarrow> lower_bound xs v = length xs"
  by (simp add: lower_bound_def takeWhile_eq_all_conv [THEN iffD2])

lemma add_at_end:
  assumes "\<forall>x\<in>set (block_sizes_m P). x < v"
    and "length (free_lists_m P) = length (block_sizes_m P)"
    and "length (free_block_counts_m P) = length (block_sizes_m P)"
  shows "addBlockSizeIfNotExist P v =
           (length (block_sizes_m P),
            P\<lparr>block_sizes_m := block_sizes_m P @ [v],
              free_lists_m := free_lists_m P @ [0],
              free_block_counts_m := free_block_counts_m P @ [0]\<rparr>)"
proof -
  have lb: "lower_bound (block_sizes_m P) v = length (block_sizes_m P)"
    using assms(1) by (rule lower_bound_all_less)
  then have "findBlockSizeIndex P v = None"
    by (simp add: findBlockSizeIndex_def)
  then show ?thesis
    using assms(2,3) by (simp add: add_new lb insert_at_def)
qed


lemma seeding_prefix:
  "n \<le> 256 \<Longrightarrow>
     foldl (\<lambda>P user_size. snd (addBlockSizeIfNotExist P (calcAlignedTotalSize user_size)))
       empty_pool (map (\<lambda>k. MIN_USER_SIZE + of_nat k * BLOCK_ALIGNMENT) [0 ..< n])
     = seeded_prefix n"
proof (induction n)
  case 0
  show ?case by (simp add: empty_pool_def seeded_prefix_def)
next
  case (Suc n)
  have less: "\<forall>x\<in>set (block_sizes_m (seeded_prefix n)). x < 24 + 8 * of_nat n"
    using Suc.prems by (auto simp: seeded_prefix_def word_less_nat_alt unat_seeded)
  have "snd (addBlockSizeIfNotExist (seeded_prefix n) (24 + 8 * of_nat n)) = seeded_prefix (Suc n)"
    by (subst add_at_end [OF less])
       (simp_all add: seeded_prefix_def replicate_append_same)
  then show ?case
    using Suc by (simp add: calc_seed)
qed

lemma BaseMemoryPool_new_eq:
  "BaseMemoryPool_new =
     \<lparr>block_sizes_m = seeded_sizes,
      free_lists_m = replicate 256 0, free_block_counts_m = replicate 256 0,
      allocate_count_m = 0, deallocate_count_m = 0, total_free_memory_m = 0,
      total_allocated_memory_m = 0\<rparr>"
  using seeding_prefix [of 256]
  by (simp add: BaseMemoryPool_new_def seed_user_sizes_eq seeded_prefix_def seeded_sizes_def)

lemma pool_ok_new: "pool_ok BaseMemoryPool_new"
  by (simp add: BaseMemoryPool_new_eq pool_ok_def sorted_seeded)

lemma find_seeded:
  assumes "block_sizes_m P = seeded_sizes" "k < 256"
  shows "findBlockSizeIndex P (24 + 8 * of_nat k) = Some k"
  using find_nth [of P k] assms by (simp add: sorted_seeded nth_seeded)

section \<open>The free-byte sum\<close>

lemma weighted_sum_update:
  fixes xs ys :: "64 word list"
  shows "i < length xs \<Longrightarrow> length ys = length xs \<Longrightarrow>
     sum_list (map2 (*) xs (ys[i := v])) = sum_list (map2 (*) xs ys) + xs ! i * (v - ys ! i)"
proof (induction xs arbitrary: i ys)
  case Nil
  then show ?case by simp
next
  case (Cons x xs)
  then obtain y ys' where ys: "ys = y # ys'" by (cases ys) auto
  show ?case
  proof (cases i)
    case 0
    then show ?thesis by (simp add: ys algebra_simps)
  next
    case (Suc j)
    then show ?thesis using Cons ys by simp
  qed
qed

lemma weighted_sum_zero:
  fixes xs :: "64 word list"
  shows "sum_list (map2 (*) xs (replicate n 0)) = 0"
proof (induction xs arbitrary: n)
  case Nil
  then show ?case by simp
next
  case (Cons x xs)
  then show ?case by (cases n) simp_all
qed

section \<open>malloc and free\<close>

lemma fresh_chunk_props:
  assumes "fresh_chunk n m = (p, m1)"
  shows "blk_size m1 = blk_size m \<and> blk_next m1 = blk_next m \<and>
         (p \<noteq> 0 \<longrightarrow> unat p + unat n < 2 ^ 64 \<and> (p, n) \<in> set (live m1))"
  using assms by (auto simp: fresh_chunk_def split: if_splits)

lemma sys_malloc_props:
  assumes "sys_malloc n m = (p, m1)"
  shows "blk_size m1 = blk_size m \<and> blk_next m1 = blk_next m \<and>
         (p \<noteq> 0 \<longrightarrow> unat p + unat n < 2 ^ 64)"
proof (cases "choices m")
  case Nil
  then have "fresh_chunk n m = (p, m1)" using assms by (simp add: sys_malloc_def)
  then show ?thesis using fresh_chunk_props by blast
next
  case (Cons c cs)
  show ?thesis
  proof (cases c)
    case Fresh
    then have "fresh_chunk n (m\<lparr>choices := cs\<rparr>) = (p, m1)"
      using assms Cons by (simp add: sys_malloc_def)
    then show ?thesis using fresh_chunk_props [of n "m\<lparr>choices := cs\<rparr>" p m1] by simp
  next
    case Fail
    then show ?thesis using assms Cons by (auto simp: sys_malloc_def)
  next
    case (Reuse i)
    show ?thesis
    proof (cases "i < length (freed m) \<and> fits n (freed m ! i)")
      case True
      then have r: "p = fst (freed m ! i)"
        "m1 = m\<lparr>choices := cs, freed := take i (freed m) @ drop (Suc i) (freed m),
                live := (freed m ! i) # live m\<rparr>"
        using assms Cons Reuse by (simp_all add: sys_malloc_def)
      have "unat n \<le> unat (snd (freed m ! i))"
        using True by (simp add: fits_def word_le_nat_alt)
      then have "unat p + unat n < 2 ^ 64" using True r(1) by (simp add: fits_def)
      then show ?thesis using r by simp
    next
      case False
      then have "fresh_chunk n (m\<lparr>choices := cs\<rparr>) = (p, m1)"
        using assms Cons Reuse by (auto simp: sys_malloc_def)
      then show ?thesis using fresh_chunk_props [of n "m\<lparr>choices := cs\<rparr>" p m1] by simp
    qed
  qed
qed

lemma sys_malloc_fresh:
  assumes "choices m = []" "brk m \<noteq> 0" "unat (brk m) + unat n + 15 < 2 ^ 64"
  shows "sys_malloc n m = (brk m, m\<lparr>brk := brk m + alignUp n 16, live := (brk m, n) # live m\<rparr>)"
  using assms by (simp add: sys_malloc_def fresh_chunk_def)

lemma sys_free_headers:
  "sys_free p m = Some m' \<Longrightarrow>
     blk_size m' = blk_size m \<and> blk_next m' = blk_next m \<and> brk m' = brk m \<and>
     choices m' = choices m"
  by (auto simp: sys_free_def split: if_splits option.splits)

section \<open>allocateBatch\<close>

lemma thread_block_first:
  "thread_block page ts idx (0, P, m) 0 =
     (slot page ts 0, P\<lparr>free_lists_m := (free_lists_m P)[idx := page]\<rparr>,
      m\<lparr>blk_size := (blk_size m)(page := ts), blk_next := (blk_next m)(page := 0)\<rparr>)"
  by (simp add: thread_block_def slot_def Let_def)

lemma thread_block_later:
  "prev \<noteq> 0 \<Longrightarrow>
   thread_block page ts idx (prev, P, m) i =
     (slot page ts i, P,
      m\<lparr>blk_size := (blk_size m)(slot page ts i := ts),
        blk_next := ((blk_next m)(slot page ts i := 0))(prev := slot page ts i)\<rparr>)"
  by (simp add: thread_block_def slot_def Let_def)

lemma threaded_first:
  "threaded page ts (Suc 0) m
     (m\<lparr>blk_size := (blk_size m)(page := ts), blk_next := (blk_next m)(page := 0)\<rparr>)"
  by (simp add: threaded_def slot_def)

lemma threaded_step:
  assumes t: "threaded page ts (Suc k) m mk"
    and inj: "inj_on (slot page ts) {..< Suc (Suc k)}"
  shows "threaded page ts (Suc (Suc k)) m
           (mk\<lparr>blk_size := (blk_size mk)(slot page ts (Suc k) := ts),
               blk_next := ((blk_next mk)(slot page ts (Suc k) := 0))
                             (slot page ts k := slot page ts (Suc k))\<rparr>)"
proof -
  let ?s = "slot page ts"
  have ne: "i < Suc (Suc k) \<Longrightarrow> j < Suc (Suc k) \<Longrightarrow> i \<noteq> j \<Longrightarrow> ?s i \<noteq> ?s j" for i j
    using inj by (auto simp: inj_on_def)
  have old: "\<forall>i<Suc k. blk_size mk (?s i) = ts \<and>
                blk_next mk (?s i) = (if Suc i < Suc k then ?s (Suc i) else 0)"
    and frame: "\<forall>x. (\<forall>i<Suc k. x \<noteq> ?s i) \<longrightarrow>
                  blk_size mk x = blk_size m x \<and> blk_next mk x = blk_next m x"
    and rest: "brk mk = brk m" "live mk = live m" "freed mk = freed m" "choices mk = choices m"
    using t by (simp_all add: threaded_def)
  show ?thesis
    unfolding threaded_def
  proof (intro conjI allI impI)
    fix x assume x: "\<forall>i<Suc (Suc k). x \<noteq> ?s i"
    then have "x \<noteq> ?s (Suc k)" "x \<noteq> ?s k" "\<forall>i<Suc k. x \<noteq> ?s i" by auto
    then show "blk_size (mk\<lparr>blk_size := (blk_size mk)(?s (Suc k) := ts),
               blk_next := ((blk_next mk)(?s (Suc k) := 0))(?s k := ?s (Suc k))\<rparr>) x = blk_size m x"
      and "blk_next (mk\<lparr>blk_size := (blk_size mk)(?s (Suc k) := ts),
               blk_next := ((blk_next mk)(?s (Suc k) := 0))(?s k := ?s (Suc k))\<rparr>) x = blk_next m x"
      using frame by simp_all
  next
    fix i assume i: "i < Suc (Suc k)"
    consider "i = Suc k" | "i = k" | "i < k" using i by linarith
    then show "blk_size (mk\<lparr>blk_size := (blk_size mk)(?s (Suc k) := ts),
               blk_next := ((blk_next mk)(?s (Suc k) := 0))(?s k := ?s (Suc k))\<rparr>) (?s i) = ts"
      using old by cases auto
  next
    fix i assume i: "i < Suc (Suc k)"
    consider "i = Suc k" | "i = k" | "i < k" using i by linarith
    then show "blk_next (mk\<lparr>blk_size := (blk_size mk)(?s (Suc k) := ts),
               blk_next := ((blk_next mk)(?s (Suc k) := 0))(?s k := ?s (Suc k))\<rparr>) (?s i)
                 = (if Suc i < Suc (Suc k) then ?s (Suc i) else 0)"
    proof cases
      case 1
      then show ?thesis using ne [of "Suc k" k] by simp
    next
      case 2
      then show ?thesis by simp
    next
      case 3
      then have "?s i \<noteq> ?s (Suc k)" "?s i \<noteq> ?s k" using ne [of i "Suc k"] ne [of i k] by simp_all
      then show ?thesis using old 3 by simp
    qed
  qed (simp_all add: rest)
qed

lemma thread_blocks:
  assumes nz: "\<forall>i<n. slot page ts i \<noteq> 0" and inj: "inj_on (slot page ts) {..<n}"
  shows "Suc k \<le> n \<Longrightarrow>
     \<exists>mk. foldl (thread_block page ts idx) (0, P, m) [0 ..< Suc k] =
            (slot page ts k, P\<lparr>free_lists_m := (free_lists_m P)[idx := page]\<rparr>, mk) \<and>
          threaded page ts (Suc k) m mk"
proof (induction k)
  case 0
  show ?case using threaded_first [of page ts m] by (simp add: thread_block_first)
next
  case (Suc k)
  then obtain mk where mk:
    "foldl (thread_block page ts idx) (0, P, m) [0 ..< Suc k] =
       (slot page ts k, P\<lparr>free_lists_m := (free_lists_m P)[idx := page]\<rparr>, mk)"
    "threaded page ts (Suc k) m mk"
    by auto
  have prev: "slot page ts k \<noteq> 0" using nz Suc.prems by simp
  have inj': "inj_on (slot page ts) {..< Suc (Suc k)}"
    using inj Suc.prems by (auto simp: inj_on_def)
  have "foldl (thread_block page ts idx) (0, P, m) [0 ..< Suc (Suc k)] =
          thread_block page ts idx
            (foldl (thread_block page ts idx) (0, P, m) [0 ..< Suc k]) (Suc k)"
    by simp
  then show ?case
    using threaded_step [OF mk(2) inj'] by (simp only: mk(1) thread_block_later [OF prev]) blast
qed

lemma slot_unat:
  assumes "ts \<noteq> 0" "unat page + 4096 < 2 ^ 64" "i < unat (PAGE_SIZE div ts)"
  shows "unat (slot page ts i) = unat page + i * unat ts \<and> i * unat ts + unat ts \<le> 4096"
proof -
  have t: "0 < unat ts" using assms(1) by (simp add: unat_gt_0)
  have n: "unat (PAGE_SIZE div ts) = 4096 div unat ts"
    by (simp add: unat_div PAGE_SIZE_def)
  have "Suc i * unat ts \<le> (4096 div unat ts) * unat ts"
    using assms(3) n by (intro mult_le_mono1) simp
  also have "\<dots> \<le> 4096" by simp
  finally have b: "i * unat ts + unat ts \<le> 4096" by simp
  have i: "i < 4096"
    using assms(3) n div_le_dividend [of 4096 "unat ts"] by linarith
  have "unat (of_nat i * ts :: 64 word) = i * unat ts"
    using b i by (simp add: unat_word_ariths unat_of_nat)
  then have "unat (slot page ts i) = unat page + i * unat ts"
    using b assms(2) by (simp add: slot_def unat_word_ariths)
  then show ?thesis using b by simp
qed

lemma slot_props:
  assumes "ts \<noteq> 0" "unat page + 4096 < 2 ^ 64" "page \<noteq> 0"
  shows "\<forall>i < unat (PAGE_SIZE div ts). slot page ts i \<noteq> 0"
    and "inj_on (slot page ts) {..< unat (PAGE_SIZE div ts)}"
proof -
  have t: "0 < unat ts" using assms(1) by (simp add: unat_gt_0)
  show "\<forall>i < unat (PAGE_SIZE div ts). slot page ts i \<noteq> 0"
  proof (intro allI impI)
    fix i assume "i < unat (PAGE_SIZE div ts)"
    then have "unat (slot page ts i) = unat page + i * unat ts"
      using slot_unat [OF assms(1,2)] by simp
    moreover have "0 < unat page" using assms(3) by (simp add: unat_gt_0)
    ultimately show "slot page ts i \<noteq> 0" by (metis add_gr_0 not_less_iff_gr_or_eq unat_0)
  qed
  show "inj_on (slot page ts) {..< unat (PAGE_SIZE div ts)}"
  proof (rule inj_onI)
    fix i j
    assume i: "i \<in> {..< unat (PAGE_SIZE div ts)}" and j: "j \<in> {..< unat (PAGE_SIZE div ts)}"
      and eq: "slot page ts i = slot page ts j"
    have a: "unat (slot page ts i) = unat page + i * unat ts"
      using slot_unat [OF assms(1,2), of i] i by simp
    have b: "unat (slot page ts j) = unat page + j * unat ts"
      using slot_unat [OF assms(1,2), of j] j by simp
    have "unat page + i * unat ts = unat page + j * unat ts"
      by (simp only: a [symmetric] b [symmetric] eq)
    then have "i * unat ts = j * unat ts" by simp
    then show "i = j" using t by simp
  qed
qed


lemma alignUp_page: "alignUp 4096 16 = 4096"
  by (simp add: alignUp_def)

lemma allocateBatch_False:
  "allocateBatch ts idx (P, m) = (False, P2, m2) \<Longrightarrow>
     P2 = P \<and> blk_size m2 = blk_size m \<and> blk_next m2 = blk_next m"
proof -
  assume a: "allocateBatch ts idx (P, m) = (False, P2, m2)"
  obtain page m1 where mal: "sys_malloc PAGE_SIZE m = (page, m1)" by fastforce
  note sys_malloc_props [OF mal]
  then show ?thesis
    using a mal by (auto simp: allocateBatch_def Let_def split: if_splits prod.splits)
qed

lemma allocateBatch_served:
  assumes "idx < length (block_sizes_m P)" "ts \<noteq> 0" "ts \<le> PAGE_SIZE"
    and mal: "sys_malloc PAGE_SIZE m = (page, m1)" and pg: "page \<noteq> 0"
  shows "\<exists>m2. threaded page ts (unat (PAGE_SIZE div ts)) m1 m2 \<and>
           0 < unat (PAGE_SIZE div ts) \<and>
           allocateBatch ts idx (P, m) =
             (True,
              P\<lparr>free_lists_m := (free_lists_m P)[idx := page],
                free_block_counts_m :=
                  (free_block_counts_m P)[idx := free_block_counts_m P ! idx + PAGE_SIZE div ts],
                total_free_memory_m := total_free_memory_m P + ts * (PAGE_SIZE div ts),
                total_allocated_memory_m := total_allocated_memory_m P + PAGE_SIZE\<rparr>,
              m2)"
proof -
  let ?n = "unat (PAGE_SIZE div ts)"
  have n: "0 < ?n"
  proof -
    have "0 < unat ts" "unat ts \<le> 4096"
      using assms(2,3) by (simp_all add: unat_gt_0 word_le_nat_alt PAGE_SIZE_def)
    then have "0 < 4096 div unat ts" by (simp add: div_greater_zero_iff)
    then show ?thesis by (simp add: unat_div PAGE_SIZE_def)
  qed
  then have bc: "PAGE_SIZE div ts \<noteq> 0" by (metis less_numeral_extra(3) unat_0)
  obtain k where k: "?n = Suc k" using n by (cases ?n) auto
  have lt: "unat page + 4096 < 2 ^ 64"
    using sys_malloc_props [OF mal] pg by (simp add: PAGE_SIZE_def)
  note sp = slot_props [OF assms(2) lt pg]
  obtain mk where mk:
    "foldl (thread_block page ts idx) (0, P, m1) [0 ..< ?n] =
       (slot page ts k, P\<lparr>free_lists_m := (free_lists_m P)[idx := page]\<rparr>, mk)"
    "threaded page ts ?n m1 mk"
    using thread_blocks [OF sp, of k idx P m1] k by auto
  have "allocateBatch ts idx (P, m) =
          (True,
           P\<lparr>free_lists_m := (free_lists_m P)[idx := page],
             free_block_counts_m :=
               (free_block_counts_m P)[idx := free_block_counts_m P ! idx + PAGE_SIZE div ts],
             total_free_memory_m := total_free_memory_m P + ts * (PAGE_SIZE div ts),
             total_allocated_memory_m := total_allocated_memory_m P + PAGE_SIZE\<rparr>, mk)"
    using assms(1-3) bc pg by (simp add: allocateBatch_def Let_def mal mk(1) not_less)
  then show ?thesis using mk(2) n by blast
qed

lemma allocateBatch_True:
  assumes "allocateBatch ts idx (P, m) = (True, P2, m2)"
  shows "\<exists>page m1. sys_malloc PAGE_SIZE m = (page, m1) \<and> page \<noteq> 0 \<and>
           unat page + 4096 < 2 ^ 64 \<and>
           idx < length (block_sizes_m P) \<and> ts \<noteq> 0 \<and> ts \<le> PAGE_SIZE \<and>
           0 < unat (PAGE_SIZE div ts) \<and>
           threaded page ts (unat (PAGE_SIZE div ts)) m1 m2 \<and>
           P2 = P\<lparr>free_lists_m := (free_lists_m P)[idx := page],
                  free_block_counts_m :=
                    (free_block_counts_m P)[idx := free_block_counts_m P ! idx + PAGE_SIZE div ts],
                  total_free_memory_m := total_free_memory_m P + ts * (PAGE_SIZE div ts),
                  total_allocated_memory_m := total_allocated_memory_m P + PAGE_SIZE\<rparr>"
proof -
  obtain page m1 where mal: "sys_malloc PAGE_SIZE m = (page, m1)" by fastforce
  have c: "idx < length (block_sizes_m P)" "ts \<noteq> 0" "ts \<le> PAGE_SIZE" "page \<noteq> 0"
    using assms mal by (auto simp: allocateBatch_def Let_def split: if_splits prod.splits)
  have lt: "unat page + 4096 < 2 ^ 64"
    using sys_malloc_props [OF mal] c(4) by (simp add: PAGE_SIZE_def)
  obtain mk where mk: "threaded page ts (unat (PAGE_SIZE div ts)) m1 mk"
    "0 < unat (PAGE_SIZE div ts)"
    "allocateBatch ts idx (P, m) =
             (True,
              P\<lparr>free_lists_m := (free_lists_m P)[idx := page],
                free_block_counts_m :=
                  (free_block_counts_m P)[idx := free_block_counts_m P ! idx + PAGE_SIZE div ts],
                total_free_memory_m := total_free_memory_m P + ts * (PAGE_SIZE div ts),
                total_allocated_memory_m := total_allocated_memory_m P + PAGE_SIZE\<rparr>,
              mk)"
    using allocateBatch_served [OF c(1-3) mal c(4)] by blast
  have "P2 = P\<lparr>free_lists_m := (free_lists_m P)[idx := page],
                free_block_counts_m :=
                  (free_block_counts_m P)[idx := free_block_counts_m P ! idx + PAGE_SIZE div ts],
                total_free_memory_m := total_free_memory_m P + ts * (PAGE_SIZE div ts),
                total_allocated_memory_m := total_allocated_memory_m P + PAGE_SIZE\<rparr>"
    "m2 = mk"
    using assms unfolding mk(3) by simp_all
  then show ?thesis using mal c lt mk(1,2) by blast
qed

lemma slot_zero [simp]: "slot page ts 0 = page"
  by (simp add: slot_def)

lemma threaded_chain:
  assumes "threaded page ts n m1 m2" "\<forall>i<n. slot page ts i \<noteq> 0"
  shows "j < n \<Longrightarrow> d = n - j \<Longrightarrow> free_chain m2 (slot page ts j) (map (slot page ts) [j ..< n])"
proof (induction d arbitrary: j)
  case 0
  then show ?case by simp
next
  case (Suc d)
  have nx: "blk_next m2 (slot page ts j) = (if Suc j < n then slot page ts (Suc j) else 0)"
    using assms(1) Suc.prems(1) by (simp add: threaded_def)
  have up: "[j ..< n] = j # [Suc j ..< n]" using Suc.prems(1) by (simp add: upt_conv_Cons)
  show ?case
  proof (cases "Suc j < n")
    case True
    then have "free_chain m2 (slot page ts (Suc j)) (map (slot page ts) [Suc j ..< n])"
      using Suc.IH [of "Suc j"] Suc.prems by simp
    then show ?thesis using assms(2) Suc.prems(1) nx True by (simp add: up)
  next
    case False
    then have "[Suc j ..< n] = []" by simp
    then show ?thesis using assms(2) Suc.prems(1) nx False by (simp add: up)
  qed
qed


section \<open>allocate\<close>

lemma locate_eq:
  "(case findBlockSizeIndex P ts of Some index \<Rightarrow> (index, P)
    | None \<Rightarrow> addBlockSizeIfNotExist P ts) = addBlockSizeIfNotExist P ts"
  by (simp add: addBlockSizeIfNotExist_def split: option.splits)

lemma allocate_oversize: "MAX_USER_SIZE < u \<Longrightarrow> allocate u (P, m) = (0, P, m)"
  by (simp add: allocate_def)

lemma allocate_pop:
  assumes "\<not> MAX_USER_SIZE < u" "addBlockSizeIfNotExist P (calcAlignedTotalSize u) = (idx, P1)"
    and "free_lists_m P1 ! idx \<noteq> 0"
  shows "allocate u (P, m) =
     (free_lists_m P1 ! idx + FREE_BLOCK_HEADER_SIZE,
      P1\<lparr>free_lists_m := (free_lists_m P1)[idx := blk_next m (free_lists_m P1 ! idx)],
         free_block_counts_m := (free_block_counts_m P1)[idx := free_block_counts_m P1 ! idx - 1],
         total_free_memory_m := total_free_memory_m P1 - blk_size m (free_lists_m P1 ! idx),
         allocate_count_m := allocate_count_m P1 + 1\<rparr>,
      m)"
  using assms by (simp add: allocate_def locate_eq Let_def)

lemma allocate_refill_fail:
  assumes "\<not> MAX_USER_SIZE < u" "addBlockSizeIfNotExist P (calcAlignedTotalSize u) = (idx, P1)"
    and "free_lists_m P1 ! idx = 0"
    and "allocateBatch (calcAlignedTotalSize u) idx (P1, m) = (False, P2, m2)"
  shows "allocate u (P, m) = (0, P1, m2)"
  using assms allocateBatch_False [OF assms(4)] by (simp add: allocate_def locate_eq Let_def)

lemma allocate_refill:
  assumes "\<not> MAX_USER_SIZE < u" "addBlockSizeIfNotExist P (calcAlignedTotalSize u) = (idx, P1)"
    and "free_lists_m P1 ! idx = 0"
    and "allocateBatch (calcAlignedTotalSize u) idx (P1, m) = (True, P2, m2)"
  shows "allocate u (P, m) =
     (free_lists_m P2 ! idx + FREE_BLOCK_HEADER_SIZE,
      P2\<lparr>free_lists_m := (free_lists_m P2)[idx := blk_next m2 (free_lists_m P2 ! idx)],
         free_block_counts_m := (free_block_counts_m P2)[idx := free_block_counts_m P2 ! idx - 1],
         total_free_memory_m := total_free_memory_m P2 - blk_size m2 (free_lists_m P2 ! idx),
         allocate_count_m := allocate_count_m P2 + 1\<rparr>,
      m2)"
  using assms by (simp add: allocate_def locate_eq Let_def)

section \<open>reclaimIdleMemory\<close>

lemma for_each_preserve:
  assumes "for_each f xs s = Some s'" "I s" "Q s"
    and "\<And>x t t'. x \<in> set xs \<Longrightarrow> I t \<Longrightarrow> f x t = Some t' \<Longrightarrow> I t'"
    and "\<And>x t t'. x \<in> set xs \<Longrightarrow> I t \<Longrightarrow> Q t \<Longrightarrow> f x t = Some t' \<Longrightarrow> Q t'"
  shows "I s' \<and> Q s'"
  using assms
proof (induction xs arbitrary: s)
  case Nil
  then show ?case by simp
next
  case (Cons x xs)
  from Cons.prems(1) obtain t where t: "f x s = Some t" "for_each f xs t = Some s'"
    by (auto split: option.splits)
  have x: "x \<in> set (x # xs)" by simp
  have it: "I t" by (rule Cons.prems(4) [OF x Cons.prems(2) t(1)])
  have qt: "Q t" by (rule Cons.prems(5) [OF x Cons.prems(2,3) t(1)])
  show ?case
  proof (rule Cons.IH [OF t(2) it qt])
    show "\<And>y u u'. y \<in> set xs \<Longrightarrow> I u \<Longrightarrow> f y u = Some u' \<Longrightarrow> I u'"
      using Cons.prems(4) by (meson list.set_intros(2))
    show "\<And>y u u'. y \<in> set xs \<Longrightarrow> I u \<Longrightarrow> Q u \<Longrightarrow> f y u = Some u' \<Longrightarrow> Q u'"
      using Cons.prems(5) by (meson list.set_intros(2))
  qed
qed

lemma for_each_post:
  assumes "for_each f xs s = Some s'" "distinct xs" "I s"
    and "\<And>x t t'. x \<in> set xs \<Longrightarrow> I t \<Longrightarrow> f x t = Some t' \<Longrightarrow> I t' \<and> Q x t'"
    and "\<And>x y t t'. x \<in> set xs \<Longrightarrow> x \<noteq> y \<Longrightarrow> I t \<Longrightarrow> Q y t \<Longrightarrow> f x t = Some t' \<Longrightarrow> Q y t'"
  shows "I s' \<and> (\<forall>x \<in> set xs. Q x s')"
  using assms
proof (induction xs arbitrary: s)
  case Nil
  then show ?case by simp
next
  case (Cons x xs)
  from Cons.prems(1) obtain t where t: "f x s = Some t" "for_each f xs t = Some s'"
    by (auto split: option.splits)
  have x: "x \<in> set (x # xs)" by simp
  have it: "I t" "Q x t" using Cons.prems(4) [OF x Cons.prems(3) t(1)] by simp_all
  have d: "distinct xs" "x \<notin> set xs" using Cons.prems(2) by auto
  have ih: "I s' \<and> (\<forall>y \<in> set xs. Q y s')"
  proof (rule Cons.IH [OF t(2) d(1) it(1)])
    show "\<And>y u u'. y \<in> set xs \<Longrightarrow> I u \<Longrightarrow> f y u = Some u' \<Longrightarrow> I u' \<and> Q y u'"
      using Cons.prems(4) by (meson list.set_intros(2))
    show "\<And>y z u u'. y \<in> set xs \<Longrightarrow> y \<noteq> z \<Longrightarrow> I u \<Longrightarrow> Q z u \<Longrightarrow> f y u = Some u'
            \<Longrightarrow> Q z u'"
      using Cons.prems(5) by (meson list.set_intros(2))
  qed
  have "I s' \<and> Q x s'"
  proof (rule for_each_preserve [where I = I and Q = "Q x", OF t(2) it(1) it(2)])
    show "\<And>y u u'. y \<in> set xs \<Longrightarrow> I u \<Longrightarrow> f y u = Some u' \<Longrightarrow> I u'"
      using Cons.prems(4) by (meson list.set_intros(2))
    show "\<And>y u u'. y \<in> set xs \<Longrightarrow> I u \<Longrightarrow> Q x u \<Longrightarrow> f y u = Some u' \<Longrightarrow> Q x u'"
      using Cons.prems(5) d(2) by (metis list.set_intros(2))
  qed
  then show ?case using ih by simp
qed

lemma for_each_id:
  "(\<And>x. x \<in> set xs \<Longrightarrow> f x s = Some s) \<Longrightarrow> for_each f xs s = Some s"
  by (induction xs) auto

lemma reclaim_class_settled:
  "settled P i \<Longrightarrow> reclaim_class i (r, P, m) = Some (r, P, m)"
  by (auto simp: reclaim_class_def settled_def Let_def)

lemma settle_arith:
  fixes c bpp :: "64 word"
  shows "c - ((c - 4) div bpp) * bpp - 4 = (c - 4) mod bpp"
    and "((c - ((c - 4) div bpp) * bpp - 4) div bpp) * bpp = 0"
proof -
  define x where "x = c - 4"
  define q where "q = x div bpp * bpp"
  have e: "q + x mod bpp = x" unfolding q_def by (rule word_mod_div_equality)
  have "c - q - 4 = x - q" by (simp add: x_def)
  also have "\<dots> = (q + x mod bpp) - q" by (simp only: e)
  also have "\<dots> = x mod bpp" by simp
  finally have r: "c - q - 4 = x mod bpp" .
  then show "c - ((c - 4) div bpp) * bpp - 4 = (c - 4) mod bpp"
    by (simp add: q_def x_def)
  have "(x mod bpp) div bpp = 0" by simp
  then show "((c - ((c - 4) div bpp) * bpp - 4) div bpp) * bpp = 0"
    using r by (simp add: q_def x_def)
qed

lemma remaining_ge:
  fixes c bpp :: "64 word"
  assumes "4 < c"
  shows "unat (c - ((c - 4) div bpp) * bpp - 1) = 3 + unat ((c - 4) mod bpp)"
proof -
  define x where "x = c - 4"
  define q where "q = (c - 4) div bpp * bpp"
  have c: "4 < unat c" using assms by (simp add: word_less_nat_alt)
  have x: "unat x = unat c - 4"
    unfolding x_def using unat_sub [of 4 c] assms by (simp add: word_le_nat_alt word_less_nat_alt)
  have "unat (x mod bpp) \<le> unat x"
    by (simp add: unat_mod)
  then have le: "unat (x mod bpp) + 4 \<le> unat c" using x c by simp
  have r: "c - q - 4 = x mod bpp"
    by (simp add: settle_arith(1) x_def q_def)
  have "c - q - 1 = (c - q - 4) + 3" by simp
  then have e: "c - q - 1 = x mod bpp + 3" by (simp only: r)
  have "unat c < 2 ^ 64" using unsigned_less [of c] by simp
  then have "unat (x mod bpp + 3) = 3 + unat (x mod bpp)"
    using le by (simp add: unat_word_ariths)
  then show ?thesis unfolding e [unfolded q_def] x_def .
qed

lemma reclaim_walk_from_nonnull:
  "reclaim_walk m n prev rh = Some (p', r') \<Longrightarrow> rh \<noteq> 0 \<Longrightarrow> r' \<noteq> 0"
  by (induction m n prev rh rule: reclaim_walk.induct) (auto split: if_splits)

lemma reclaim_walk_nonnull:
  "reclaim_walk m (Suc n) prev rh = Some (p', r') \<Longrightarrow> r' \<noteq> 0"
  using reclaim_walk_from_nonnull [of m "Suc n" prev rh p' r'] by (auto split: if_splits)

lemma reclaim_class_release:
  assumes rc: "reclaim_class i (r, P, m) = Some (r', P', m')" and ns: "\<not> settled P i"
  defines "ts \<equiv> block_sizes_m P ! i" and "c \<equiv> free_block_counts_m P ! i"
  defines "n \<equiv> ((c - RESERVE_BLOCK_COUNT) div (PAGE_SIZE div ts)) * (PAGE_SIZE div ts)"
  obtains prev rh where
    "reclaim_walk m (unat (c - n - 1)) 0 (free_lists_m P ! i) = Some (prev, rh)"
    "rh \<noteq> 0" "ts \<noteq> 0" "RESERVE_BLOCK_COUNT < c" "r' = r + ts * n"
    "P' = (if prev \<noteq> 0 then P else P\<lparr>free_lists_m := (free_lists_m P)[i := 0]\<rparr>)
                  \<lparr>free_block_counts_m := (free_block_counts_m P)[i := c - n],
                   total_free_memory_m := total_free_memory_m P - ts * n\<rparr>"
    "sys_free rh (if prev \<noteq> 0 then m\<lparr>blk_next := (blk_next m)(prev := 0)\<rparr> else m) = Some m'"
proof -
  have nle: "\<not> c \<le> RESERVE_BLOCK_COUNT" using ns by (simp add: settled_def c_def)
  then have gt: "RESERVE_BLOCK_COUNT < c" by simp
  have ts0: "ts \<noteq> 0"
    using rc nle by (auto simp: reclaim_class_def Let_def c_def ts_def split: if_splits)
  have n0: "n \<noteq> 0"
    using ns nle ts0 by (auto simp: settled_def c_def ts_def n_def)
  have bpp: "PAGE_SIZE div ts \<noteq> 0" using n0 by (auto simp: n_def)
  have "unat (c - n - 1) = 3 + unat ((c - 4) mod (PAGE_SIZE div ts))"
    using remaining_ge [of c "PAGE_SIZE div ts"] gt
    by (simp add: n_def RESERVE_BLOCK_COUNT_def)
  then obtain k where k: "unat (c - n - 1) = Suc k" by simp
  define P1 where "P1 prev = (if prev \<noteq> 0 then P else P\<lparr>free_lists_m := (free_lists_m P)[i := 0]\<rparr>)"
    for prev :: addr
  have step: "reclaim_class i (r, P, m) =
      (case reclaim_walk m (unat (c - n - 1)) 0 (free_lists_m P ! i) of
         None \<Rightarrow> None
       | Some (prev, rh) \<Rightarrow>
           if rh = 0 then Some (r, P, m)
           else
             (case sys_free rh
                     (if prev \<noteq> 0 then m\<lparr>blk_next := (blk_next m)(prev := 0)\<rparr> else m) of
                None \<Rightarrow> None
              | Some m2 \<Rightarrow>
                  Some
                    (r + ts * n,
                     (P1 prev)\<lparr>free_block_counts_m :=
                         (free_block_counts_m (P1 prev))
                           [i := free_block_counts_m (P1 prev) ! i - n],
                       total_free_memory_m := total_free_memory_m (P1 prev) - ts * n\<rparr>,
                     m2)))"
    using nle n0 ts0 bpp
    unfolding reclaim_class_def Let_def c_def ts_def n_def P1_def by simp
  obtain prev rh where w:
    "reclaim_walk m (unat (c - n - 1)) 0 (free_lists_m P ! i) = Some (prev, rh)"
    using rc unfolding step by (cases "reclaim_walk m (unat (c - n - 1)) 0 (free_lists_m P ! i)") auto
  have rh: "rh \<noteq> 0" using w [unfolded k] by (rule reclaim_walk_nonnull)
  obtain m2 where fr:
    "sys_free rh (if prev \<noteq> 0 then m\<lparr>blk_next := (blk_next m)(prev := 0)\<rparr> else m) = Some m2"
    using rc rh unfolding step w
    by (cases "sys_free rh (if prev \<noteq> 0 then m\<lparr>blk_next := (blk_next m)(prev := 0)\<rparr> else m)")
       auto
  have "Some (r + ts * n,
               (P1 prev)\<lparr>free_block_counts_m :=
                     (free_block_counts_m (P1 prev))[i := free_block_counts_m (P1 prev) ! i - n],
                   total_free_memory_m := total_free_memory_m (P1 prev) - ts * n\<rparr>,
               m2)
        = Some (r', P', m')"
    using rc rh unfolding step w by (simp add: fr)
  then have res0: "r' = r + ts * n"
    "P' = (P1 prev)\<lparr>free_block_counts_m :=
                     (free_block_counts_m (P1 prev))[i := free_block_counts_m (P1 prev) ! i - n],
                   total_free_memory_m := total_free_memory_m (P1 prev) - ts * n\<rparr>"
    "m2 = m'"
    by simp_all
  have p1: "free_block_counts_m (P1 prev) = free_block_counts_m P"
    "total_free_memory_m (P1 prev) = total_free_memory_m P"
    by (simp_all add: P1_def)
  have res: "r' = r + ts * n"
    "P' = (if prev \<noteq> 0 then P else P\<lparr>free_lists_m := (free_lists_m P)[i := 0]\<rparr>)
                  \<lparr>free_block_counts_m := (free_block_counts_m P)[i := c - n],
                   total_free_memory_m := total_free_memory_m P - ts * n\<rparr>"
    "sys_free rh (if prev \<noteq> 0 then m\<lparr>blk_next := (blk_next m)(prev := 0)\<rparr> else m) = Some m'"
    using res0 fr unfolding p1 by (simp_all add: P1_def c_def)
  show ?thesis
    by (rule that [OF w rh ts0 gt res])
qed

lemma reclaim_class_step:
  assumes rc: "reclaim_class i (r, P, m) = Some (r', P', m')"
    and i: "i < length (free_block_counts_m P)"
  shows "settled P' i \<and> block_sizes_m P' = block_sizes_m P \<and>
         length (free_block_counts_m P') = length (free_block_counts_m P) \<and>
         length (free_lists_m P') = length (free_lists_m P) \<and>
         (\<forall>j. j \<noteq> i \<longrightarrow> free_block_counts_m P' ! j = free_block_counts_m P ! j)"
proof (cases "settled P i")
  case True
  then show ?thesis using rc by (simp add: reclaim_class_settled)
next
  case False
  let ?ts = "block_sizes_m P ! i" and ?c = "free_block_counts_m P ! i"
  let ?n = "((?c - RESERVE_BLOCK_COUNT) div (PAGE_SIZE div ?ts)) * (PAGE_SIZE div ?ts)"
  show ?thesis
  proof (rule reclaim_class_release [OF rc False])
    fix prev rh
    assume ts: "?ts \<noteq> 0"
      and P': "P' = (if prev \<noteq> 0 then P else P\<lparr>free_lists_m := (free_lists_m P)[i := 0]\<rparr>)
                  \<lparr>free_block_counts_m := (free_block_counts_m P)[i := ?c - ?n],
                   total_free_memory_m := total_free_memory_m P - ?ts * ?n\<rparr>"
    have f: "block_sizes_m P' = block_sizes_m P"
      "free_block_counts_m P' = (free_block_counts_m P)[i := ?c - ?n]"
      "length (free_lists_m P') = length (free_lists_m P)"
      by (auto simp: P')
    have "settled P' i"
      using ts i settle_arith(2) [of ?c "PAGE_SIZE div ?ts"]
      by (simp add: settled_def f RESERVE_BLOCK_COUNT_def)
    then show ?thesis by (simp add: f)
  qed
qed

lemma settled_cong:
  "block_sizes_m P' = block_sizes_m P \<Longrightarrow> free_block_counts_m P' ! j = free_block_counts_m P ! j
     \<Longrightarrow> settled P' j = settled P j"
  by (simp add: settled_def)


lemma reclaim_post:
  assumes r: "reclaimIdleMemory (P, m) = Some (r, P', m')" and ok: "pool_ok P"
  shows "pool_ok P' \<and> block_sizes_m P' = block_sizes_m P \<and>
         (\<forall>i<length (block_sizes_m P). settled P' i)"
proof -
  let ?I = "\<lambda>st :: size_t \<times> BaseMemoryPool \<times> memory.
              pool_ok (fst (snd st)) \<and> block_sizes_m (fst (snd st)) = block_sizes_m P"
  let ?Q = "\<lambda>i (st :: size_t \<times> BaseMemoryPool \<times> memory). settled (fst (snd st)) i"
  have fe: "for_each reclaim_class [0 ..< length (block_sizes_m P)] (0, P, m) = Some (r, P', m')"
    using r by (simp add: reclaimIdleMemory_def)
  have "?I (r, P', m') \<and> (\<forall>i \<in> set [0 ..< length (block_sizes_m P)]. ?Q i (r, P', m'))"
  proof (rule for_each_post [where I = ?I and Q = ?Q, OF fe])
    show "distinct [0 ..< length (block_sizes_m P)]" by simp
    show "?I (0, P, m)" using ok by simp
  next
    fix x t t'
    assume x: "x \<in> set [0 ..< length (block_sizes_m P)]" and I: "?I t"
      and f: "reclaim_class x t = Some t'"
    obtain r1 P1 m1 r2 P2 m2 where t: "t = (r1, P1, m1)" "t' = (r2, P2, m2)"
      by (metis prod_cases3)
    have xl: "x < length (free_block_counts_m P1)"
      using x I by (simp add: t pool_ok_def)
    note st = reclaim_class_step [OF f [unfolded t] xl]
    show "?I t' \<and> ?Q x t'"
      using st I ok by (simp add: t pool_ok_def)
  next
    fix x y t t'
    assume x: "x \<in> set [0 ..< length (block_sizes_m P)]" and ne: "x \<noteq> y" and I: "?I t"
      and q: "?Q y t" and f: "reclaim_class x t = Some t'"
    obtain r1 P1 m1 r2 P2 m2 where t: "t = (r1, P1, m1)" "t' = (r2, P2, m2)"
      by (metis prod_cases3)
    have xl: "x < length (free_block_counts_m P1)"
      using x I by (simp add: t pool_ok_def)
    note st = reclaim_class_step [OF f [unfolded t] xl]
    have "settled P2 y = settled P1 y"
      by (rule settled_cong) (use st ne in auto)
    then show "?Q y t'" using q by (simp add: t)
  qed
  then show ?thesis by simp
qed

lemma reclaim_idem:
  assumes "\<forall>i<length (block_sizes_m P). settled P i"
  shows "reclaimIdleMemory (P, m) = Some (0, P, m)"
  unfolding reclaimIdleMemory_def
  using assms by (auto intro!: for_each_id reclaim_class_settled)

lemma unat_div_mult:
  fixes x b :: "64 word"
  shows "unat (x div b * b) = unat x div unat b * unat b"
proof -
  have x: "unat x < 2 ^ 64" using unsigned_less [of x] by simp
  have "unat x div unat b * unat b \<le> unat x" by simp
  then have a: "unat x div unat b * unat b < 2 ^ 64" using x by linarith
  have "unat x div unat b \<le> unat x" by (rule div_le_dividend)
  then have b: "unat x div unat b < 2 ^ 64" using x by linarith
  show ?thesis using a b by (simp add: unat_word_ariths unat_div)
qed

lemma settled_bound:
  assumes s: "settled P k" and ts: "block_sizes_m P ! k \<noteq> 0" "block_sizes_m P ! k \<le> PAGE_SIZE"
  shows "unat (free_block_counts_m P ! k)
           < unat RESERVE_BLOCK_COUNT + unat (PAGE_SIZE div block_sizes_m P ! k)"
proof -
  let ?ts = "block_sizes_m P ! k" and ?c = "free_block_counts_m P ! k"
  let ?bpp = "PAGE_SIZE div ?ts"
  have t: "0 < unat ?ts" "unat ?ts \<le> 4096"
    using ts by (simp_all add: unat_gt_0 word_le_nat_alt PAGE_SIZE_def)
  have bpp: "unat ?bpp = 4096 div unat ?ts" by (simp add: unat_div PAGE_SIZE_def)
  have b1: "1 \<le> unat ?bpp" unfolding bpp using t by (simp add: Suc_leI div_greater_zero_iff)
  show ?thesis
  proof (cases "?c \<le> RESERVE_BLOCK_COUNT")
    case True
    then have "unat ?c \<le> unat RESERVE_BLOCK_COUNT" by (simp add: word_le_nat_alt)
    then show ?thesis using b1 by simp
  next
    case False
    then have c4: "4 < unat ?c" by (simp add: word_le_nat_alt RESERVE_BLOCK_COUNT_def)
    have z: "(?c - 4) div ?bpp * ?bpp = 0"
      using s False by (simp add: settled_def RESERVE_BLOCK_COUNT_def)
    have x: "unat (?c - 4) = unat ?c - 4"
      using unat_sub [of 4 ?c] c4 by (simp add: word_le_nat_alt)
    have "unat (?c - 4) div unat ?bpp * unat ?bpp = 0"
      using z unat_div_mult [of "?c - 4" ?bpp] by simp
    then have "unat (?c - 4) div unat ?bpp = 0" using b1 by simp
    then have "unat (?c - 4) < unat ?bpp" using b1 by (simp add: div_eq_0_iff)
    then show ?thesis using x c4 by (simp add: RESERVE_BLOCK_COUNT_def)
  qed
qed

section \<open>transferTo\<close>

lemma free_chain_cong:
  "\<forall>x \<in> set bs. blk_next m' x = blk_next m x \<Longrightarrow> free_chain m' a bs = free_chain m a bs"
  by (induction bs arbitrary: a) auto


lemma transfer_class_skip:
  "free_lists_m S ! i = 0 \<Longrightarrow> transfer_class i (S, D, m) = Some (S, D, m)"
  by (simp add: transfer_class_def)

lemma transfer_class_move:
  assumes tc: "transfer_class i (S, D, m) = Some (S', D', m')" and ne: "free_lists_m S ! i \<noteq> 0"
  defines "ts \<equiv> block_sizes_m S ! i" and "c \<equiv> free_block_counts_m S ! i"
  obtains di D1 l where
    "addBlockSizeIfNotExist D ts = (di, D1)"
    "find_last m (free_lists_m S ! i) = Some l"
    "S' = S\<lparr>free_lists_m := (free_lists_m S)[i := 0],
            free_block_counts_m := (free_block_counts_m S)[i := 0],
            total_free_memory_m := total_free_memory_m S - ts * c\<rparr>"
    "D' = D1\<lparr>free_lists_m := (free_lists_m D1)[di := free_lists_m S ! i],
             free_block_counts_m := (free_block_counts_m D1)[di := free_block_counts_m D1 ! di + c],
             total_free_memory_m := total_free_memory_m D1 + ts * c\<rparr>"
    "m' = m\<lparr>blk_next := (blk_next m)(l := free_lists_m D1 ! di)\<rparr>"
proof -
  obtain di D1 where add: "addBlockSizeIfNotExist D ts = (di, D1)" by fastforce
  have step: "transfer_class i (S, D, m) =
      (case find_last m (free_lists_m S ! i) of
         None \<Rightarrow> None
       | Some l \<Rightarrow>
           Some (S\<lparr>free_lists_m := (free_lists_m S)[i := 0],
                   free_block_counts_m := (free_block_counts_m S)[i := 0],
                   total_free_memory_m := total_free_memory_m S - ts * c\<rparr>,
                 D1\<lparr>free_lists_m := (free_lists_m D1)[di := free_lists_m S ! i],
                    free_block_counts_m :=
                      (free_block_counts_m D1)[di := free_block_counts_m D1 ! di + c],
                    total_free_memory_m := total_free_memory_m D1 + ts * c\<rparr>,
                 m\<lparr>blk_next := (blk_next m)(l := free_lists_m D1 ! di)\<rparr>))"
    using ne add unfolding transfer_class_def Let_def locate_eq ts_def c_def by simp
  obtain l where l: "find_last m (free_lists_m S ! i) = Some l"
    using tc unfolding step by (cases "find_last m (free_lists_m S ! i)") auto
  have "Some (S\<lparr>free_lists_m := (free_lists_m S)[i := 0],
                   free_block_counts_m := (free_block_counts_m S)[i := 0],
                   total_free_memory_m := total_free_memory_m S - ts * c\<rparr>,
                 D1\<lparr>free_lists_m := (free_lists_m D1)[di := free_lists_m S ! i],
                    free_block_counts_m :=
                      (free_block_counts_m D1)[di := free_block_counts_m D1 ! di + c],
                    total_free_memory_m := total_free_memory_m D1 + ts * c\<rparr>,
                 m\<lparr>blk_next := (blk_next m)(l := free_lists_m D1 ! di)\<rparr>) = Some (S', D', m')"
    using tc unfolding step l by simp
  then have res:
    "S' = S\<lparr>free_lists_m := (free_lists_m S)[i := 0],
            free_block_counts_m := (free_block_counts_m S)[i := 0],
            total_free_memory_m := total_free_memory_m S - ts * c\<rparr>"
    "D' = D1\<lparr>free_lists_m := (free_lists_m D1)[di := free_lists_m S ! i],
             free_block_counts_m := (free_block_counts_m D1)[di := free_block_counts_m D1 ! di + c],
             total_free_memory_m := total_free_memory_m D1 + ts * c\<rparr>"
    "m' = m\<lparr>blk_next := (blk_next m)(l := free_lists_m D1 ! di)\<rparr>"
    by simp_all
  show thesis by (rule that [OF add l res])
qed

lemma for_each_append:
  "for_each f (xs @ ys) s = (case for_each f xs s of None \<Rightarrow> None | Some t \<Rightarrow> for_each f ys t)"
  by (induction xs arbitrary: s) (auto split: option.splits)

lemma transferTo_single:
  assumes k: "k < length (free_lists_m S)"
    and others: "\<forall>i<length (free_lists_m S). i \<noteq> k \<longrightarrow> free_lists_m S ! i = 0"
    and step: "transfer_class k (S, D, m) = Some (S', D', m')"
    and S': "free_lists_m S' = (free_lists_m S)[k := 0]"
  shows "transferTo (S, D, m) = Some (S', D', m')"
proof -
  let ?n = "length (free_lists_m S)"
  have split: "[0 ..< ?n] = [0 ..< k] @ [k] @ [Suc k ..< ?n]"
    using k by (metis append_Cons append_Nil le_add1 less_imp_add_positive
        upt_add_eq_append upt_conv_Cons plus_nat.add_0 le0 less_or_eq_imp_le)
  have pre: "for_each transfer_class [0 ..< k] (S, D, m) = Some (S, D, m)"
    using k others by (intro for_each_id transfer_class_skip) simp
  have post: "for_each transfer_class [Suc k ..< ?n] (S', D', m') = Some (S', D', m')"
    using k others by (intro for_each_id transfer_class_skip) (simp add: S')
  show ?thesis
    unfolding transferTo_def
    by (simp add: split for_each_append pre step post del: upt_Suc)
qed

lemma replicate_update_same [simp]: "(replicate n x)[i := x] = replicate n x"
  by (induction n arbitrary: i) (simp_all split: nat.splits)

lemma new_fields:
  "block_sizes_m BaseMemoryPool_new = seeded_sizes"
  "free_lists_m BaseMemoryPool_new = replicate 256 0"
  "free_block_counts_m BaseMemoryPool_new = replicate 256 0"
  "allocate_count_m BaseMemoryPool_new = 0" "deallocate_count_m BaseMemoryPool_new = 0"
  "total_free_memory_m BaseMemoryPool_new = 0" "total_allocated_memory_m BaseMemoryPool_new = 0"
  by (simp_all add: BaseMemoryPool_new_eq)

section \<open>Running allocate and deallocate forwards\<close>

lemma served_user_ptr:
  assumes "sys_malloc PAGE_SIZE m = (page, m1)" "page \<noteq> 0"
  shows "unat (page + FREE_BLOCK_HEADER_SIZE) = unat page + 16"
    and "page + FREE_BLOCK_HEADER_SIZE \<noteq> 0"
    and "unat page + 4096 < 2 ^ 64"
proof -
  show lt: "unat page + 4096 < 2 ^ 64"
    using sys_malloc_props [OF assms(1)] assms(2) by (simp add: PAGE_SIZE_def)
  then show u: "unat (page + FREE_BLOCK_HEADER_SIZE) = unat page + 16"
    by (simp add: unat_word_ariths FREE_BLOCK_HEADER_SIZE_def)
  then show "page + FREE_BLOCK_HEADER_SIZE \<noteq> 0"
    by (metis add_is_0 unat_0 zero_neq_numeral)
qed

lemma allocate_fresh_class:
  assumes mal: "sys_malloc PAGE_SIZE m = (page, m1)" "page \<noteq> 0"
    and u: "u \<le> MAX_USER_SIZE" and k: "k < 256" "calcAlignedTotalSize u = 24 + 8 * of_nat k"
    and P: "block_sizes_m P = seeded_sizes" "pool_ok P" "free_lists_m P ! k = 0"
  defines "ts \<equiv> calcAlignedTotalSize u"
  shows "\<exists>m2. threaded page ts (unat (PAGE_SIZE div ts)) m1 m2 \<and>
           0 < unat (PAGE_SIZE div ts) \<and>
           allocate u (P, m) =
             (page + FREE_BLOCK_HEADER_SIZE,
              P\<lparr>free_lists_m := (free_lists_m P)[k := blk_next m2 page],
                free_block_counts_m :=
                  (free_block_counts_m P)[k := free_block_counts_m P ! k + PAGE_SIZE div ts - 1],
                allocate_count_m := allocate_count_m P + 1,
                total_free_memory_m :=
                  total_free_memory_m P + ts * (PAGE_SIZE div ts) - blk_size m2 page,
                total_allocated_memory_m := total_allocated_memory_m P + PAGE_SIZE\<rparr>,
              m2)"
proof -
  have nm: "\<not> MAX_USER_SIZE < u" using u by simp
  have len: "length (block_sizes_m P) = 256" "length (free_lists_m P) = 256"
    "length (free_block_counts_m P) = 256"
    using P by (simp_all add: pool_ok_def)
  have "findBlockSizeIndex P ts = Some k" using find_seeded [OF P(1) k(1)] k(2) by (simp add: ts_def)
  then have add: "addBlockSizeIfNotExist P (calcAlignedTotalSize u) = (k, P)"
    unfolding ts_def by (rule add_existing)
  have tsu: "unat ts = 24 + 8 * k" using k by (simp add: ts_def unat_seeded)
  then have ts0: "ts \<noteq> 0" by (metis add_is_0 unat_0 zero_neq_numeral)
  have tsle: "ts \<le> PAGE_SIZE" using tsu k(1) by (simp add: word_le_nat_alt PAGE_SIZE_def)
  have idx: "k < length (block_sizes_m P)" using len k(1) by simp
  obtain m2 where th: "threaded page ts (unat (PAGE_SIZE div ts)) m1 m2"
    and n: "0 < unat (PAGE_SIZE div ts)"
    and b: "allocateBatch ts k (P, m) =
             (True,
              P\<lparr>free_lists_m := (free_lists_m P)[k := page],
                free_block_counts_m :=
                  (free_block_counts_m P)[k := free_block_counts_m P ! k + PAGE_SIZE div ts],
                total_free_memory_m := total_free_memory_m P + ts * (PAGE_SIZE div ts),
                total_allocated_memory_m := total_allocated_memory_m P + PAGE_SIZE\<rparr>,
              m2)"
    using allocateBatch_served [OF idx ts0 tsle mal] by blast
  have "allocate u (P, m) =
             (page + FREE_BLOCK_HEADER_SIZE,
              P\<lparr>free_lists_m := (free_lists_m P)[k := blk_next m2 page],
                free_block_counts_m :=
                  (free_block_counts_m P)[k := free_block_counts_m P ! k + PAGE_SIZE div ts - 1],
                allocate_count_m := allocate_count_m P + 1,
                total_free_memory_m :=
                  total_free_memory_m P + ts * (PAGE_SIZE div ts) - blk_size m2 page,
                total_allocated_memory_m := total_allocated_memory_m P + PAGE_SIZE\<rparr>,
              m2)"
    unfolding allocate_refill [OF nm add P(3) b [unfolded ts_def]]
    using len k(1) by (simp add: ts_def)
  then show ?thesis using th n by blast
qed

lemma calc_min: "calcAlignedTotalSize MIN_USER_SIZE = 24"
  by (simp add: calcAlignedTotalSize_def alignUp_def FREE_BLOCK_HEADER_SIZE_def
      BLOCK_ALIGNMENT_def MIN_USER_SIZE_def)

section \<open>One allocation and its release on a fresh pool\<close>

lemma fresh_round_trip:
  assumes mal: "sys_malloc PAGE_SIZE m = (page, m1)" "page \<noteq> 0"
    and u: "u \<le> MAX_USER_SIZE" and k: "k < 256" "calcAlignedTotalSize u = 24 + 8 * of_nat k"
  defines "ts \<equiv> calcAlignedTotalSize u"
  obtains P1 m2 where
    "allocate u (BaseMemoryPool_new, m) = (page + FREE_BLOCK_HEADER_SIZE, P1, m2)"
    "allocate_count_m P1 = 1" "block_sizes_m P1 = seeded_sizes"
    "deallocate (page + FREE_BLOCK_HEADER_SIZE) (P1, m2) =
       Some (BaseMemoryPool_new
          \<lparr>free_lists_m := (replicate 256 0)[k := page],
           free_block_counts_m := (replicate 256 0)[k := PAGE_SIZE div ts],
           allocate_count_m := 1, deallocate_count_m := 1,
           total_free_memory_m := ts * (PAGE_SIZE div ts),
           total_allocated_memory_m := PAGE_SIZE\<rparr>,
        m2)"
    "free_chain m2 page (map (slot page ts) [0 ..< unat (PAGE_SIZE div ts)])"
proof -
  let ?n = "unat (PAGE_SIZE div ts)"
  let ?P1 = "\<lambda>m2. BaseMemoryPool_new
              \<lparr>free_lists_m := (replicate 256 0)[k := blk_next m2 page],
               free_block_counts_m := (replicate 256 0)[k := PAGE_SIZE div ts - 1],
               allocate_count_m := 1,
               total_free_memory_m := ts * (PAGE_SIZE div ts) - blk_size m2 page,
               total_allocated_memory_m := PAGE_SIZE\<rparr>"
  have z: "free_lists_m BaseMemoryPool_new ! k = 0" using k(1) by (simp add: new_fields)
  obtain m2 where th: "threaded page ts ?n m1 m2"
    and n: "0 < ?n"
    and a: "allocate u (BaseMemoryPool_new, m) =
             (page + FREE_BLOCK_HEADER_SIZE,
              BaseMemoryPool_new
               \<lparr>free_lists_m := (free_lists_m BaseMemoryPool_new)[k := blk_next m2 page],
                free_block_counts_m :=
                  (free_block_counts_m BaseMemoryPool_new)
                    [k := free_block_counts_m BaseMemoryPool_new ! k + PAGE_SIZE div ts - 1],
                allocate_count_m := allocate_count_m BaseMemoryPool_new + 1,
                total_free_memory_m :=
                  total_free_memory_m BaseMemoryPool_new + ts * (PAGE_SIZE div ts)
                    - blk_size m2 page,
                total_allocated_memory_m := total_allocated_memory_m BaseMemoryPool_new + PAGE_SIZE\<rparr>,
              m2)"
    using allocate_fresh_class [OF mal u k new_fields(1) pool_ok_new z] unfolding ts_def by blast
  have a': "allocate u (BaseMemoryPool_new, m) = (page + FREE_BLOCK_HEADER_SIZE, ?P1 m2, m2)"
    unfolding a using k(1) by (simp add: new_fields)
  have s0: "blk_size m2 page = ts"
    using th n by (auto simp: threaded_def dest!: spec [of _ 0])
  have tsu: "unat ts = 24 + 8 * k" using k by (simp add: ts_def unat_seeded)
  have ts0: "ts \<noteq> 0" using tsu by (metis add_is_0 unat_0 zero_neq_numeral)
  have ge: "\<not> ts < calcAlignedTotalSize MIN_USER_SIZE"
    using tsu by (simp add: calc_min word_less_nat_alt)
  have f: "findBlockSizeIndex P ts = Some k" if "block_sizes_m P = seeded_sizes" for P
    using find_seeded [OF that k(1)] k(2) by (simp add: ts_def)
  note sv = served_user_ptr [OF mal]
  have chain: "free_chain m2 page (map (slot page ts) [0 ..< ?n])"
    using threaded_chain [OF th slot_props(1) [OF ts0 sv(3) mal(2)], of 0 ?n] n by simp
  have d: "deallocate (page + FREE_BLOCK_HEADER_SIZE) (?P1 m2, m2) =
       Some (BaseMemoryPool_new
          \<lparr>free_lists_m := (replicate 256 0)[k := page],
           free_block_counts_m := (replicate 256 0)[k := PAGE_SIZE div ts],
           allocate_count_m := 1, deallocate_count_m := 1,
           total_free_memory_m := ts * (PAGE_SIZE div ts),
           total_allocated_memory_m := PAGE_SIZE\<rparr>,
        m2)"
  proof -
    have b: "page + FREE_BLOCK_HEADER_SIZE - FREE_BLOCK_HEADER_SIZE = page" by simp
    have upd: "m2\<lparr>blk_next := (blk_next m2)(page := blk_next m2 page)\<rparr> = m2" by simp
    show ?thesis
      using sv(2) ts0 ge k(1)
      by (simp add: deallocate_def Let_def b s0 f upd new_fields)
  qed
  show thesis
    by (rule that [OF a' _ _ d chain]) (simp_all add: new_fields)
qed

lemma calc_64: "calcAlignedTotalSize 64 = 24 + 8 * of_nat 7" "calcAlignedTotalSize 64 = 80"
  by (simp_all add: calcAlignedTotalSize_def alignUp_def FREE_BLOCK_HEADER_SIZE_def
      BLOCK_ALIGNMENT_def)

lemma calc_15: "calcAlignedTotalSize 15 = 24 + 8 * of_nat 1" "calcAlignedTotalSize 15 = 32"
  by (simp_all add: calcAlignedTotalSize_def alignUp_def FREE_BLOCK_HEADER_SIZE_def
      BLOCK_ALIGNMENT_def)

lemma initial_memory_serves:
  "sys_malloc PAGE_SIZE initial_memory =
     (65536, initial_memory\<lparr>brk := 69632, live := [(65536, 4096)]\<rparr>)"
  "(65536 :: addr) \<noteq> 0" "unat (65536 :: addr) mod 8 = 0"
  by (simp_all add: sys_malloc_def fresh_chunk_def initial_memory_def PAGE_SIZE_def alignUp_page)

section \<open>The claims\<close>

lemma small_path_run:
  assumes "sys_malloc PAGE_SIZE m = (page, m1)" and "page \<noteq> 0" and "unat page mod 8 = 0"
  shows "\<exists>p P1 m2 P2 m3.
           ThreadLocalMemoryPool_allocate 64 (BaseMemoryPool_new, m) = (p, P1, m2) \<and>
           p \<noteq> 0 \<and> unat p mod 8 = 0 \<and> allocate_count (getLocalStats P1) = 1 \<and>
           ThreadLocalMemoryPool_deallocate p (P1, m2) = Some (P2, m3) \<and>
           getLocalStats P2 =
             \<lparr>allocate_count = 1, deallocate_count = 1, total_free_memory = 4080,
              total_used_memory = 16, total_allocated_memory = 4096\<rparr>"
proof -
  have u: "(64 :: size_t) \<le> MAX_USER_SIZE" "(7 :: nat) < 256"
    by (simp_all add: MAX_USER_SIZE_def)
  note c = calc_64(2)
  note sv = served_user_ptr [OF assms(1,2)]
  have pa: "unat (page + FREE_BLOCK_HEADER_SIZE) mod 8 = 0"
    unfolding sv(1) using assms(3) by presburger
  show ?thesis
  proof (rule fresh_round_trip [OF assms(1,2) u calc_64(1)])
    fix P1 m2
    assume a: "allocate 64 (BaseMemoryPool_new, m) = (page + FREE_BLOCK_HEADER_SIZE, P1, m2)"
      and ac: "allocate_count_m P1 = 1"
      and d: "deallocate (page + FREE_BLOCK_HEADER_SIZE) (P1, m2) =
       Some (BaseMemoryPool_new
          \<lparr>free_lists_m := (replicate 256 0)[7 := page],
           free_block_counts_m := (replicate 256 0)[7 := PAGE_SIZE div calcAlignedTotalSize 64],
           allocate_count_m := 1, deallocate_count_m := 1,
           total_free_memory_m :=
             calcAlignedTotalSize 64 * (PAGE_SIZE div calcAlignedTotalSize 64),
           total_allocated_memory_m := PAGE_SIZE\<rparr>,
        m2)"
    let ?P2 = "BaseMemoryPool_new
          \<lparr>free_lists_m := (replicate 256 0)[7 := page],
           free_block_counts_m := (replicate 256 0)[7 := PAGE_SIZE div calcAlignedTotalSize 64],
           allocate_count_m := 1, deallocate_count_m := 1,
           total_free_memory_m :=
             calcAlignedTotalSize 64 * (PAGE_SIZE div calcAlignedTotalSize 64),
           total_allocated_memory_m := PAGE_SIZE\<rparr>"
    have a': "ThreadLocalMemoryPool_allocate 64 (BaseMemoryPool_new, m)
                = (page + FREE_BLOCK_HEADER_SIZE, P1, m2)"
      by (simp add: ThreadLocalMemoryPool_allocate_def a)
    have ac': "allocate_count (getLocalStats P1) = 1"
      by (simp add: getLocalStats_def getStats_def ac)
    have d': "ThreadLocalMemoryPool_deallocate (page + FREE_BLOCK_HEADER_SIZE) (P1, m2)
                = Some (?P2, m2)"
      by (simp add: ThreadLocalMemoryPool_deallocate_def d)
    have st: "getLocalStats ?P2 =
             \<lparr>allocate_count = 1, deallocate_count = 1, total_free_memory = 4080,
              total_used_memory = 16, total_allocated_memory = 4096\<rparr>"
      by (simp add: getLocalStats_def getStats_def c PAGE_SIZE_def)
    show ?thesis
      by (intro exI conjI) (rule a', rule sv(2), rule pa, rule ac', rule d', rule st)
  qed
qed

text \<open>
  C9, as the code has it. On a freshly constructed thread-local pool, when \<open>malloc\<close> serves
  the page at an 8-aligned address: \<open>p = allocate(64)\<close> is non-null and 8-aligned and the
  stats show \<open>allocate_count == 1\<close>; after \<open>deallocate(p)\<close> they show
  \<open>deallocate_count == 1\<close>, \<open>total_free_memory == 4080\<close> and \<open>total_used_memory == 16\<close>:
  the 51 blocks of 80 bytes leave 16 bytes of the page that are never free.
\<close>

theorem single_thread_small_path:
  assumes "sys_malloc PAGE_SIZE m = (page, m1)" and "page \<noteq> 0" and "unat page mod 8 = 0"
  shows "\<exists>p P1 m2 P2 m3.
           ThreadLocalMemoryPool_allocate 64 (BaseMemoryPool_new, m) = (p, P1, m2) \<and>
           p \<noteq> 0 \<and> unat p mod 8 = 0 \<and> allocate_count (getLocalStats P1) = 1 \<and>
           ThreadLocalMemoryPool_deallocate p (P1, m2) = Some (P2, m3) \<and>
           getLocalStats P2 =
             \<lparr>allocate_count = 1, deallocate_count = 1, total_free_memory = 4080,
              total_used_memory = 16, total_allocated_memory = 4096\<rparr>"
  using assms by (rule small_path_run)

theorem single_thread_small_path_witness:
  "sys_malloc PAGE_SIZE initial_memory =
     (65536, initial_memory\<lparr>brk := 69632, live := [(65536, 4096)]\<rparr>) \<and>
   (65536 :: addr) \<noteq> 0 \<and> unat (65536 :: addr) mod 8 = 0 \<and>
   (\<exists>p P1 m2 P2 m3.
      ThreadLocalMemoryPool_allocate 64 (BaseMemoryPool_new, initial_memory) = (p, P1, m2) \<and>
      p \<noteq> 0 \<and> unat p mod 8 = 0 \<and> allocate_count (getLocalStats P1) = 1 \<and>
      ThreadLocalMemoryPool_deallocate p (P1, m2) = Some (P2, m3) \<and>
      getLocalStats P2 =
        \<lparr>allocate_count = 1, deallocate_count = 1, total_free_memory = 4080,
         total_used_memory = 16, total_allocated_memory = 4096\<rparr>)"
  using single_thread_small_path [OF initial_memory_serves(1,2,3)] initial_memory_serves(1,2,3)
  by blast

theorem single_thread_small_path_counterexample:
  "ThreadLocalMemoryPool_deallocate
     (fst (ThreadLocalMemoryPool_allocate 64 (BaseMemoryPool_new, initial_memory)))
     (snd (ThreadLocalMemoryPool_allocate 64 (BaseMemoryPool_new, initial_memory))) \<noteq> None \<and>
   total_used_memory
     (getLocalStats
        (fst (the (ThreadLocalMemoryPool_deallocate
                (fst (ThreadLocalMemoryPool_allocate 64 (BaseMemoryPool_new, initial_memory)))
                (snd (ThreadLocalMemoryPool_allocate 64 (BaseMemoryPool_new, initial_memory)))))))
     = 16 \<and>
   total_used_memory
     (getLocalStats
        (fst (the (ThreadLocalMemoryPool_deallocate
                (fst (ThreadLocalMemoryPool_allocate 64 (BaseMemoryPool_new, initial_memory)))
                (snd (ThreadLocalMemoryPool_allocate 64 (BaseMemoryPool_new, initial_memory)))))))
     \<noteq> 0"
proof -
  obtain p P1 m2 P2 m3 where
    a: "ThreadLocalMemoryPool_allocate 64 (BaseMemoryPool_new, initial_memory) = (p, P1, m2)"
    and d: "ThreadLocalMemoryPool_deallocate p (P1, m2) = Some (P2, m3)"
    and s: "getLocalStats P2 =
        \<lparr>allocate_count = 1, deallocate_count = 1, total_free_memory = 4080,
         total_used_memory = 16, total_allocated_memory = 4096\<rparr>"
    using small_path_run [OF initial_memory_serves(1,2,3)] by blast
  show ?thesis by (simp add: a d s)
qed

lemma dynamic_class_run:
  assumes "sys_malloc PAGE_SIZE m = (page, m1)" and "page \<noteq> 0"
  shows "calcAlignedTotalSize 15 = alignUp (15 + FREE_BLOCK_HEADER_SIZE) BLOCK_ALIGNMENT \<and>
         calcAlignedTotalSize 15 = calcAlignedTotalSize 16 \<and>
         findBlockSizeIndex BaseMemoryPool_new (calcAlignedTotalSize 15) = Some 1 \<and>
         (\<exists>p P1 m2 P2 m3.
            allocate 15 (BaseMemoryPool_new, m) = (p, P1, m2) \<and>
            block_sizes_m P1 = block_sizes_m BaseMemoryPool_new \<and>
            deallocate p (P1, m2) = Some (P2, m3) \<and>
            block_sizes_m P2 = block_sizes_m BaseMemoryPool_new \<and>
            (\<forall>j<256. j \<noteq> 1 \<longrightarrow> free_lists_m P2 ! j = 0) \<and>
            free_chain m3 (free_lists_m P2 ! 1) (map (slot page 32) [0 ..< 128]) \<and>
            free_block_counts_m P2 ! 1 = 128)"
proof -
  have u: "(15 :: size_t) \<le> MAX_USER_SIZE" "(1 :: nat) < 256"
    by (simp_all add: MAX_USER_SIZE_def)
  have c1: "calcAlignedTotalSize 15 = alignUp (15 + FREE_BLOCK_HEADER_SIZE) BLOCK_ALIGNMENT"
    by (simp add: calcAlignedTotalSize_def)
  have c2: "calcAlignedTotalSize 15 = calcAlignedTotalSize 16"
    by (simp add: calcAlignedTotalSize_def alignUp_def FREE_BLOCK_HEADER_SIZE_def
        BLOCK_ALIGNMENT_def)
  have f: "findBlockSizeIndex BaseMemoryPool_new (calcAlignedTotalSize 15) = Some 1"
    using find_seeded [of BaseMemoryPool_new 1] by (simp add: new_fields calc_15(2))
  have n: "PAGE_SIZE div calcAlignedTotalSize 15 = 128"
    by (simp_all add: calc_15(2) PAGE_SIZE_def)
  have "\<exists>p P1 m2 P2 m3.
            allocate 15 (BaseMemoryPool_new, m) = (p, P1, m2) \<and>
            block_sizes_m P1 = block_sizes_m BaseMemoryPool_new \<and>
            deallocate p (P1, m2) = Some (P2, m3) \<and>
            block_sizes_m P2 = block_sizes_m BaseMemoryPool_new \<and>
            (\<forall>j<256. j \<noteq> 1 \<longrightarrow> free_lists_m P2 ! j = 0) \<and>
            free_chain m3 (free_lists_m P2 ! 1) (map (slot page 32) [0 ..< 128]) \<and>
            free_block_counts_m P2 ! 1 = 128"
  proof (rule fresh_round_trip [OF assms(1,2) u calc_15(1)])
    fix P1 m2
    let ?P2 = "BaseMemoryPool_new
          \<lparr>free_lists_m := (replicate 256 0)[1 := page],
           free_block_counts_m := (replicate 256 0)[1 := PAGE_SIZE div calcAlignedTotalSize 15],
           allocate_count_m := 1, deallocate_count_m := 1,
           total_free_memory_m :=
             calcAlignedTotalSize 15 * (PAGE_SIZE div calcAlignedTotalSize 15),
           total_allocated_memory_m := PAGE_SIZE\<rparr>"
    assume a: "allocate 15 (BaseMemoryPool_new, m) = (page + FREE_BLOCK_HEADER_SIZE, P1, m2)"
      and sz: "block_sizes_m P1 = seeded_sizes"
      and d: "deallocate (page + FREE_BLOCK_HEADER_SIZE) (P1, m2) = Some (?P2, m2)"
      and ch: "free_chain m2 page
          (map (slot page (calcAlignedTotalSize 15))
             [0 ..< unat (PAGE_SIZE div calcAlignedTotalSize 15)])"
    have s1: "block_sizes_m P1 = block_sizes_m BaseMemoryPool_new" by (simp add: sz new_fields)
    have s2: "block_sizes_m ?P2 = block_sizes_m BaseMemoryPool_new" by simp
    have e: "\<forall>j<256. j \<noteq> 1 \<longrightarrow> free_lists_m ?P2 ! j = 0" by simp
    have h: "free_lists_m ?P2 ! 1 = page" by simp
    have n': "unat (PAGE_SIZE div (32 :: size_t)) = 128" by (simp add: PAGE_SIZE_def)
    have ch2: "free_chain m2 page (map (slot page 32) [0 ..< 128])"
      using ch by (simp only: calc_15(2) n')
    have ch': "free_chain m2 (free_lists_m ?P2 ! 1) (map (slot page 32) [0 ..< 128])"
      unfolding h by (rule ch2)
    have cnt: "free_block_counts_m ?P2 ! 1 = 128" by (simp add: n)
    show ?thesis
      by (intro exI conjI) (rule a, rule s1, rule d, rule s2, rule e, rule ch', rule cnt)
  qed
  then show ?thesis using c1 c2 f by blast
qed

text \<open>
  C8, as the code has it. On a freshly constructed pool, when \<open>malloc\<close> serves the page:
  \<open>allocate(15)\<close> computes the total size \<open>alignUp(15 + header, 8)\<close>, which is the total of
  the class seeded for user size 16, so the class is found and none is inserted; after
  \<open>deallocate(p)\<close> the table is still the seeded one, every freelist but that class's is
  empty, and that class's freelist holds the 128 blocks of the page.
\<close>

theorem dynamic_class_scenario:
  assumes "sys_malloc PAGE_SIZE m = (page, m1)" and "page \<noteq> 0"
  shows "calcAlignedTotalSize 15 = alignUp (15 + FREE_BLOCK_HEADER_SIZE) BLOCK_ALIGNMENT \<and>
         calcAlignedTotalSize 15 = calcAlignedTotalSize 16 \<and>
         findBlockSizeIndex BaseMemoryPool_new (calcAlignedTotalSize 15) = Some 1 \<and>
         (\<exists>p P1 m2 P2 m3.
            allocate 15 (BaseMemoryPool_new, m) = (p, P1, m2) \<and>
            block_sizes_m P1 = block_sizes_m BaseMemoryPool_new \<and>
            deallocate p (P1, m2) = Some (P2, m3) \<and>
            block_sizes_m P2 = block_sizes_m BaseMemoryPool_new \<and>
            (\<forall>j<256. j \<noteq> 1 \<longrightarrow> free_lists_m P2 ! j = 0) \<and>
            free_chain m3 (free_lists_m P2 ! 1) (map (slot page 32) [0 ..< 128]) \<and>
            free_block_counts_m P2 ! 1 = 128)"
  using assms by (rule dynamic_class_run)

theorem dynamic_class_scenario_witness:
  "sys_malloc PAGE_SIZE initial_memory =
     (65536, initial_memory\<lparr>brk := 69632, live := [(65536, 4096)]\<rparr>) \<and>
   (65536 :: addr) \<noteq> 0 \<and>
   findBlockSizeIndex BaseMemoryPool_new (calcAlignedTotalSize 15) = Some 1 \<and>
   (\<exists>p P1 m2 P2 m3.
      allocate 15 (BaseMemoryPool_new, initial_memory) = (p, P1, m2) \<and>
      block_sizes_m P1 = block_sizes_m BaseMemoryPool_new \<and>
      deallocate p (P1, m2) = Some (P2, m3) \<and>
      block_sizes_m P2 = block_sizes_m BaseMemoryPool_new \<and>
      free_lists_m P2 ! 0 = 0 \<and> free_lists_m P2 ! 2 = 0 \<and>
      free_chain m3 (free_lists_m P2 ! 1) (map (slot 65536 32) [0 ..< 128]) \<and>
      free_block_counts_m P2 ! 1 = 128)"
proof -
  note t = dynamic_class_scenario [OF initial_memory_serves(1,2)]
  from t obtain p P1 m2 P2 m3 where r:
    "allocate 15 (BaseMemoryPool_new, initial_memory) = (p, P1, m2)"
    "block_sizes_m P1 = block_sizes_m BaseMemoryPool_new"
    "deallocate p (P1, m2) = Some (P2, m3)"
    "block_sizes_m P2 = block_sizes_m BaseMemoryPool_new"
    "\<forall>j<256. j \<noteq> 1 \<longrightarrow> free_lists_m P2 ! j = 0"
    "free_chain m3 (free_lists_m P2 ! 1) (map (slot 65536 32) [0 ..< 128])"
    "free_block_counts_m P2 ! 1 = 128"
    by blast
  have z: "free_lists_m P2 ! 0 = 0" "free_lists_m P2 ! 2 = 0" using r(5) by simp_all
  have "\<exists>p P1 m2 P2 m3.
      allocate 15 (BaseMemoryPool_new, initial_memory) = (p, P1, m2) \<and>
      block_sizes_m P1 = block_sizes_m BaseMemoryPool_new \<and>
      deallocate p (P1, m2) = Some (P2, m3) \<and>
      block_sizes_m P2 = block_sizes_m BaseMemoryPool_new \<and>
      free_lists_m P2 ! 0 = 0 \<and> free_lists_m P2 ! 2 = 0 \<and>
      free_chain m3 (free_lists_m P2 ! 1) (map (slot 65536 32) [0 ..< 128]) \<and>
      free_block_counts_m P2 ! 1 = 128"
    by (intro exI conjI) (rule r(1), rule r(2), rule r(3), rule r(4), rule z(1), rule z(2),
        rule r(6), rule r(7))
  then show ?thesis using t initial_memory_serves(1,2) by blast
qed

theorem dynamic_class_scenario_counterexample:
  "findBlockSizeIndex BaseMemoryPool_new (calcAlignedTotalSize 15) = Some 1 \<and>
   block_sizes_m (fst (snd (allocate 15 (BaseMemoryPool_new, initial_memory))))
     = block_sizes_m BaseMemoryPool_new \<and>
   deallocate (fst (allocate 15 (BaseMemoryPool_new, initial_memory)))
     (snd (allocate 15 (BaseMemoryPool_new, initial_memory))) \<noteq> None \<and>
   free_chain
     (snd (the (deallocate (fst (allocate 15 (BaseMemoryPool_new, initial_memory)))
             (snd (allocate 15 (BaseMemoryPool_new, initial_memory))))))
     (free_lists_m
        (fst (the (deallocate (fst (allocate 15 (BaseMemoryPool_new, initial_memory)))
                (snd (allocate 15 (BaseMemoryPool_new, initial_memory)))))) ! 1)
     (map (slot 65536 32) [0 ..< 128]) \<and>
   length (map (slot 65536 32) [0 ..< 128]) = 128 \<and>
   free_block_counts_m
     (fst (the (deallocate (fst (allocate 15 (BaseMemoryPool_new, initial_memory)))
             (snd (allocate 15 (BaseMemoryPool_new, initial_memory)))))) ! 1 = 128"
proof -
  note t = dynamic_class_run [OF initial_memory_serves(1,2)]
  from t obtain p P1 m2 P2 m3 where r:
    "allocate 15 (BaseMemoryPool_new, initial_memory) = (p, P1, m2)"
    "block_sizes_m P1 = block_sizes_m BaseMemoryPool_new"
    "deallocate p (P1, m2) = Some (P2, m3)"
    "free_chain m3 (free_lists_m P2 ! 1) (map (slot 65536 32) [0 ..< 128])"
    "free_block_counts_m P2 ! 1 = 128"
    by blast
  have f: "findBlockSizeIndex BaseMemoryPool_new (calcAlignedTotalSize 15) = Some 1"
    using t by blast
  show ?thesis
    using r(2,4,5) f by (simp add: r(1) r(3))
qed

lemma reclaim_walk_pos:
  "0 < n \<Longrightarrow> reclaim_walk m n prev rh =
     (if rh = 0 then None
      else if blk_next m rh = 0 then Some (prev, rh)
      else reclaim_walk m (n - 1) rh (blk_next m rh))"
  by (cases n) simp_all

lemma five_block_reclaim:
  "reclaimIdleMemory (five_block_pool, five_block_memory) =
     Some (2064,
           five_block_pool\<lparr>free_block_counts_m := [4], total_free_memory_m := 8256\<rparr>,
           five_block_memory
             \<lparr>blk_next := (blk_next five_block_memory)(12288 := 0),
              live := [(24576, 4096), (20480, 4096), (12288, 4096), (8192, 4096), (4096, 4096)],
              freed := [(16384, 4096)]\<rparr>)"
  by (simp add: reclaimIdleMemory_def reclaim_class_def five_block_pool_def five_block_memory_def
      Let_def RESERVE_BLOCK_COUNT_def PAGE_SIZE_def sys_free_def reclaim_walk_pos)

text \<open>
  C7. Calling \<open>reclaimIdleMemory\<close> twice in immediate succession: whenever the first call
  returns, the second returns 0 and changes neither the pool nor the memory, because the
  first call leaves every class whose blocks fit a page with fewer than
  \<open>RESERVE_BLOCK_COUNT\<close> plus blocks-per-page free blocks.
\<close>

theorem reclaim_twice_releases_nothing:
  assumes "pool_ok P" and "reclaimIdleMemory (P, m) = Some (reclaimed, P', m')"
  shows "reclaimIdleMemory (P', m') = Some (0, P', m') \<and>
         (\<forall>k < length (block_sizes_m P').
            block_sizes_m P' ! k \<noteq> 0 \<and> block_sizes_m P' ! k \<le> PAGE_SIZE \<longrightarrow>
            unat (free_block_counts_m P' ! k)
              < unat RESERVE_BLOCK_COUNT + unat (PAGE_SIZE div block_sizes_m P' ! k))"
proof -
  note post = reclaim_post [OF assms(2,1)]
  have st: "\<forall>i<length (block_sizes_m P'). settled P' i" using post by simp
  then have "reclaimIdleMemory (P', m') = Some (0, P', m')" by (rule reclaim_idem)
  then show ?thesis using st settled_bound by blast
qed

theorem reclaim_twice_releases_nothing_witness:
  "pool_ok five_block_pool \<and>
   reclaimIdleMemory (five_block_pool, five_block_memory) =
     Some (2064,
           five_block_pool\<lparr>free_block_counts_m := [4], total_free_memory_m := 8256\<rparr>,
           five_block_memory
             \<lparr>blk_next := (blk_next five_block_memory)(12288 := 0),
              live := [(24576, 4096), (20480, 4096), (12288, 4096), (8192, 4096), (4096, 4096)],
              freed := [(16384, 4096)]\<rparr>) \<and>
   reclaimIdleMemory
     (five_block_pool\<lparr>free_block_counts_m := [4], total_free_memory_m := 8256\<rparr>,
      five_block_memory
             \<lparr>blk_next := (blk_next five_block_memory)(12288 := 0),
              live := [(24576, 4096), (20480, 4096), (12288, 4096), (8192, 4096), (4096, 4096)],
              freed := [(16384, 4096)]\<rparr>) =
     Some (0,
           five_block_pool\<lparr>free_block_counts_m := [4], total_free_memory_m := 8256\<rparr>,
           five_block_memory
             \<lparr>blk_next := (blk_next five_block_memory)(12288 := 0),
              live := [(24576, 4096), (20480, 4096), (12288, 4096), (8192, 4096), (4096, 4096)],
              freed := [(16384, 4096)]\<rparr>) \<and>
   unat (4 :: size_t) < unat RESERVE_BLOCK_COUNT + unat (PAGE_SIZE div 2064)"
proof -
  let ?P' = "five_block_pool\<lparr>free_block_counts_m := [4], total_free_memory_m := 8256\<rparr>"
  have ok: "pool_ok five_block_pool" by (simp add: pool_ok_def five_block_pool_def)
  note t = reclaim_twice_releases_nothing [OF ok five_block_reclaim]
  have a: "reclaimIdleMemory
     (?P', five_block_memory
             \<lparr>blk_next := (blk_next five_block_memory)(12288 := 0),
              live := [(24576, 4096), (20480, 4096), (12288, 4096), (8192, 4096), (4096, 4096)],
              freed := [(16384, 4096)]\<rparr>) =
     Some (0, ?P', five_block_memory
             \<lparr>blk_next := (blk_next five_block_memory)(12288 := 0),
              live := [(24576, 4096), (20480, 4096), (12288, 4096), (8192, 4096), (4096, 4096)],
              freed := [(16384, 4096)]\<rparr>)"
    using t by (rule conjunct1)
  have k: "0 < length (block_sizes_m ?P')" "block_sizes_m ?P' ! 0 \<noteq> 0"
    "block_sizes_m ?P' ! 0 \<le> PAGE_SIZE"
    by (simp_all add: five_block_pool_def PAGE_SIZE_def)
  have "unat (free_block_counts_m ?P' ! 0)
          < unat RESERVE_BLOCK_COUNT + unat (PAGE_SIZE div block_sizes_m ?P' ! 0)"
    using t k by blast
  then have b: "unat (4 :: size_t) < unat RESERVE_BLOCK_COUNT + unat (PAGE_SIZE div 2064)"
    by (simp add: five_block_pool_def)
  show ?thesis using ok five_block_reclaim a b by blast
qed

lemma allocate_64_fresh:
  obtains m2 where
    "allocate 64 (BaseMemoryPool_new, initial_memory) =
       (65552,
        BaseMemoryPool_new
          \<lparr>free_lists_m := (replicate 256 0)[7 := 65616],
           free_block_counts_m := (replicate 256 0)[7 := 50],
           allocate_count_m := 1, total_free_memory_m := 4000,
           total_allocated_memory_m := 4096\<rparr>,
        m2)"
    "threaded 65536 80 51 (initial_memory\<lparr>brk := 69632, live := [(65536, 4096)]\<rparr>) m2"
proof -
  have pre: "(64 :: size_t) \<le> MAX_USER_SIZE" "(7::nat) < 256"
    "block_sizes_m BaseMemoryPool_new = seeded_sizes" "free_lists_m BaseMemoryPool_new ! 7 = 0"
    by (simp_all add: MAX_USER_SIZE_def BaseMemoryPool_new_eq)
  obtain m2 where
    t: "threaded 65536 (calcAlignedTotalSize 64)
          (unat (PAGE_SIZE div calcAlignedTotalSize 64))
          (initial_memory\<lparr>brk := 69632, live := [(65536, 4096)]\<rparr>) m2"
    and a: "allocate 64 (BaseMemoryPool_new, initial_memory) =
             (65536 + FREE_BLOCK_HEADER_SIZE,
              BaseMemoryPool_new
               \<lparr>free_lists_m := (free_lists_m BaseMemoryPool_new)[7 := blk_next m2 65536],
                free_block_counts_m :=
                  (free_block_counts_m BaseMemoryPool_new)
                    [7 := free_block_counts_m BaseMemoryPool_new ! 7
                            + PAGE_SIZE div calcAlignedTotalSize 64 - 1],
                allocate_count_m := allocate_count_m BaseMemoryPool_new + 1,
                total_free_memory_m :=
                  total_free_memory_m BaseMemoryPool_new
                    + calcAlignedTotalSize 64 * (PAGE_SIZE div calcAlignedTotalSize 64)
                    - blk_size m2 65536,
                total_allocated_memory_m := total_allocated_memory_m BaseMemoryPool_new + PAGE_SIZE\<rparr>,
              m2)"
    using allocate_fresh_class [OF initial_memory_serves(1,2) pre(1,2) calc_64(1) pre(3)
        pool_ok_new pre(4)] by blast
  note c = calc_64(2)
  have t': "threaded 65536 80 51 (initial_memory\<lparr>brk := 69632, live := [(65536, 4096)]\<rparr>) m2"
    using t by (simp add: c PAGE_SIZE_def)
  have "\<forall>i<51. blk_size m2 (slot 65536 80 i) = 80 \<and>
           blk_next m2 (slot 65536 80 i) = (if Suc i < 51 then slot 65536 80 (Suc i) else 0)"
    using t' by (simp add: threaded_def)
  then have "blk_size m2 (slot 65536 80 0) = 80 \<and>
           blk_next m2 (slot 65536 80 0) = (if Suc 0 < 51 then slot 65536 80 (Suc 0) else 0)"
    by (rule allE [of _ 0]) simp
  then have s0: "blk_size m2 65536 = 80" "blk_next m2 65536 = 65616"
    by (simp_all add: slot_def)
  show thesis
  proof (rule that [OF _ t'])
    show "allocate 64 (BaseMemoryPool_new, initial_memory) =
       (65552,
        BaseMemoryPool_new
          \<lparr>free_lists_m := (replicate 256 0)[7 := 65616],
           free_block_counts_m := (replicate 256 0)[7 := 50],
           allocate_count_m := 1, total_free_memory_m := 4000,
           total_allocated_memory_m := 4096\<rparr>,
        m2)"
      unfolding a using s0
      by (simp add: c BaseMemoryPool_new_eq PAGE_SIZE_def FREE_BLOCK_HEADER_SIZE_def)
  qed
qed

text \<open>
  C1. \<open>allocate\<close> returns null, and changes nothing, when \<open>user_size\<close> exceeds
  \<open>MAX_USER_SIZE\<close>; a \<open>user_size\<close> of 0 is served as \<open>MIN_USER_SIZE\<close>; and a non-null result is
  the head block of the class of \<open>alignUp(user_size + header, BLOCK_ALIGNMENT)\<close> (after the
  class was looked up or inserted and, if its list was empty, refilled by \<open>allocateBatch\<close>)
  plus the header size, with the list head advanced to the block's \<open>next\<close>, the class's
  free count one less, \<open>total_free_memory_\<close> less by the block's size field, and
  \<open>allocate_count_\<close> one more.
\<close>

theorem allocate_behaviour:
  assumes "pool_ok P"
  shows "(MAX_USER_SIZE < user_size \<longrightarrow> allocate user_size (P, m) = (0, P, m)) \<and>
    allocate 0 (P, m) = allocate MIN_USER_SIZE (P, m) \<and>
    (allocate user_size (P, m) = (p, P', m') \<and> p \<noteq> 0 \<longrightarrow>
       (\<exists>i P2.
          let total_size =
                alignUp ((if user_size = 0 then MIN_USER_SIZE else user_size)
                           + FREE_BLOCK_HEADER_SIZE) BLOCK_ALIGNMENT;
              P1 = snd (addBlockSizeIfNotExist P total_size);
              block = free_lists_m P2 ! i
          in findBlockSizeIndex P1 total_size = Some i \<and>
             block_sizes_m P2 ! i = total_size \<and> i < length (block_sizes_m P2) \<and>
             (free_lists_m P1 ! i \<noteq> 0 \<and> P2 = P1 \<and> m' = m \<or>
              free_lists_m P1 ! i = 0 \<and> allocateBatch total_size i (P1, m) = (True, P2, m')) \<and>
             block \<noteq> 0 \<and> p = block + FREE_BLOCK_HEADER_SIZE \<and>
             free_lists_m P' = (free_lists_m P2)[i := blk_next m' block] \<and>
             free_lists_m P' ! i = blk_next m' block \<and>
             free_block_counts_m P' =
               (free_block_counts_m P2)[i := free_block_counts_m P2 ! i - 1] \<and>
             free_block_counts_m P' ! i = free_block_counts_m P2 ! i - 1 \<and>
             total_free_memory_m P' = total_free_memory_m P2 - blk_size m' block \<and>
             allocate_count_m P' = allocate_count_m P + 1 \<and>
             block_sizes_m P' = block_sizes_m P2))"
proof (intro conjI impI)
  assume "MAX_USER_SIZE < user_size"
  then show "allocate user_size (P, m) = (0, P, m)" by (rule allocate_oversize)
next
  show "allocate 0 (P, m) = allocate MIN_USER_SIZE (P, m)"
    by (simp add: allocate_def calcAlignedTotalSize_def MIN_USER_SIZE_def MAX_USER_SIZE_def)
next
  assume a: "allocate user_size (P, m) = (p, P', m') \<and> p \<noteq> 0"
  let ?ts = "calcAlignedTotalSize user_size"
  have nm: "\<not> MAX_USER_SIZE < user_size"
    using a by (auto simp: allocate_oversize)
  obtain i P1 where add: "addBlockSizeIfNotExist P ?ts = (i, P1)" by fastforce
  note ok1 = pool_ok_add [OF assms add]
  have len1: "i < length (free_lists_m P1)" "i < length (free_block_counts_m P1)"
    using ok1 by (simp_all add: pool_ok_def)
  have f1: "findBlockSizeIndex P1 ?ts = Some i"
    using find_nth [of P1 i] ok1 by (auto simp: pool_ok_def)
  have main: "\<exists>P2. block_sizes_m P2 ! i = ?ts \<and> i < length (block_sizes_m P2) \<and>
             (free_lists_m P1 ! i \<noteq> 0 \<and> P2 = P1 \<and> m' = m \<or>
              free_lists_m P1 ! i = 0 \<and> allocateBatch ?ts i (P1, m) = (True, P2, m')) \<and>
             free_lists_m P2 ! i \<noteq> 0 \<and> p = free_lists_m P2 ! i + FREE_BLOCK_HEADER_SIZE \<and>
             i < length (free_lists_m P2) \<and> i < length (free_block_counts_m P2) \<and>
             allocate_count_m P2 = allocate_count_m P \<and>
             P' = P2\<lparr>free_lists_m := (free_lists_m P2)[i := blk_next m' (free_lists_m P2 ! i)],
                     free_block_counts_m :=
                       (free_block_counts_m P2)[i := free_block_counts_m P2 ! i - 1],
                     total_free_memory_m :=
                       total_free_memory_m P2 - blk_size m' (free_lists_m P2 ! i),
                     allocate_count_m := allocate_count_m P2 + 1\<rparr>"
  proof (cases "free_lists_m P1 ! i = 0")
    case nonempty: False
    have ac: "allocate_count_m P1 = allocate_count_m P"
      using add by (auto simp: addBlockSizeIfNotExist_def Let_def split: option.splits)
    have "(p, P', m') =
        (free_lists_m P1 ! i + FREE_BLOCK_HEADER_SIZE,
         P1\<lparr>free_lists_m := (free_lists_m P1)[i := blk_next m (free_lists_m P1 ! i)],
            free_block_counts_m := (free_block_counts_m P1)[i := free_block_counts_m P1 ! i - 1],
            total_free_memory_m := total_free_memory_m P1 - blk_size m (free_lists_m P1 ! i),
            allocate_count_m := allocate_count_m P1 + 1\<rparr>,
         m)"
      by (rule trans [OF conjunct1 [OF a, symmetric] allocate_pop [OF nm add nonempty]])
    then show ?thesis
      using ok1 len1 nonempty ac by (intro exI [of _ P1]) simp
  next
    case empty: True
    obtain ok P2 m2 where b: "allocateBatch ?ts i (P1, m) = (ok, P2, m2)"
      using prod_cases3 by blast
    show ?thesis
    proof (cases ok)
      case False
      then have "allocate user_size (P, m) = (0, P1, m2)"
        using allocate_refill_fail [OF nm add empty] b by simp
      then show ?thesis using a by simp
    next
      case True
      then have b': "allocateBatch ?ts i (P1, m) = (True, P2, m2)" using b by simp
      note t = allocateBatch_True [OF b']
      have ac1: "allocate_count_m P1 = allocate_count_m P"
        using add by (auto simp: addBlockSizeIfNotExist_def Let_def split: option.splits)
      have ac: "allocate_count_m P2 = allocate_count_m P"
        using t ac1 by auto
      have hd2: "free_lists_m P2 ! i \<noteq> 0"
        "block_sizes_m P2 = block_sizes_m P1"
        "length (free_lists_m P2) = length (free_lists_m P1)"
        "length (free_block_counts_m P2) = length (free_block_counts_m P1)"
        using t len1 by auto
      have "(p, P', m') =
        (free_lists_m P2 ! i + FREE_BLOCK_HEADER_SIZE,
         P2\<lparr>free_lists_m := (free_lists_m P2)[i := blk_next m2 (free_lists_m P2 ! i)],
            free_block_counts_m := (free_block_counts_m P2)[i := free_block_counts_m P2 ! i - 1],
            total_free_memory_m := total_free_memory_m P2 - blk_size m2 (free_lists_m P2 ! i),
            allocate_count_m := allocate_count_m P2 + 1\<rparr>,
         m2)"
        by (rule trans [OF conjunct1 [OF a, symmetric] allocate_refill [OF nm add empty b']])
      then show ?thesis
        using ok1 len1 empty ac hd2 b' by (intro exI [of _ P2]) simp
    qed
  qed
  then obtain P2 where P2: "block_sizes_m P2 ! i = ?ts" "i < length (block_sizes_m P2)"
    "free_lists_m P1 ! i \<noteq> 0 \<and> P2 = P1 \<and> m' = m \<or>
     free_lists_m P1 ! i = 0 \<and> allocateBatch ?ts i (P1, m) = (True, P2, m')"
    "free_lists_m P2 ! i \<noteq> 0" "p = free_lists_m P2 ! i + FREE_BLOCK_HEADER_SIZE"
    "i < length (free_lists_m P2)" "i < length (free_block_counts_m P2)"
    "allocate_count_m P2 = allocate_count_m P"
    "P' = P2\<lparr>free_lists_m := (free_lists_m P2)[i := blk_next m' (free_lists_m P2 ! i)],
                     free_block_counts_m :=
                       (free_block_counts_m P2)[i := free_block_counts_m P2 ! i - 1],
                     total_free_memory_m :=
                       total_free_memory_m P2 - blk_size m' (free_lists_m P2 ! i),
                     allocate_count_m := allocate_count_m P2 + 1\<rparr>"
    by blast
  have P1: "snd (addBlockSizeIfNotExist P ?ts) = P1" by (simp add: add)
  show "\<exists>i P2.
          let total_size =
                alignUp ((if user_size = 0 then MIN_USER_SIZE else user_size)
                           + FREE_BLOCK_HEADER_SIZE) BLOCK_ALIGNMENT;
              P1 = snd (addBlockSizeIfNotExist P total_size);
              block = free_lists_m P2 ! i
          in findBlockSizeIndex P1 total_size = Some i \<and>
             block_sizes_m P2 ! i = total_size \<and> i < length (block_sizes_m P2) \<and>
             (free_lists_m P1 ! i \<noteq> 0 \<and> P2 = P1 \<and> m' = m \<or>
              free_lists_m P1 ! i = 0 \<and> allocateBatch total_size i (P1, m) = (True, P2, m')) \<and>
             block \<noteq> 0 \<and> p = block + FREE_BLOCK_HEADER_SIZE \<and>
             free_lists_m P' = (free_lists_m P2)[i := blk_next m' block] \<and>
             free_lists_m P' ! i = blk_next m' block \<and>
             free_block_counts_m P' =
               (free_block_counts_m P2)[i := free_block_counts_m P2 ! i - 1] \<and>
             free_block_counts_m P' ! i = free_block_counts_m P2 ! i - 1 \<and>
             total_free_memory_m P' = total_free_memory_m P2 - blk_size m' block \<and>
             allocate_count_m P' = allocate_count_m P + 1 \<and>
             block_sizes_m P' = block_sizes_m P2"
    unfolding Let_def calcAlignedTotalSize_def [symmetric] P1
    by (intro exI [of _ i] exI [of _ P2] conjI f1 P2(1-5)) (simp_all add: P2(6-9))
qed

theorem allocate_behaviour_witness:
  "pool_ok BaseMemoryPool_new \<and> MAX_USER_SIZE < 4096 \<and>
   allocate 4096 (BaseMemoryPool_new, initial_memory) = (0, BaseMemoryPool_new, initial_memory) \<and>
   allocate 0 (BaseMemoryPool_new, initial_memory)
     = allocate MIN_USER_SIZE (BaseMemoryPool_new, initial_memory) \<and>
   fst (allocate 64 (BaseMemoryPool_new, initial_memory)) = 65552 \<and>
   fst (allocate 64 (BaseMemoryPool_new, initial_memory)) \<noteq> 0 \<and>
   (\<exists>i P2. findBlockSizeIndex BaseMemoryPool_new 80 = Some i \<and>
      block_sizes_m P2 ! i = 80 \<and>
      allocateBatch 80 i (BaseMemoryPool_new, initial_memory)
        = (True, P2, snd (snd (allocate 64 (BaseMemoryPool_new, initial_memory)))) \<and>
      fst (allocate 64 (BaseMemoryPool_new, initial_memory))
        = free_lists_m P2 ! i + FREE_BLOCK_HEADER_SIZE \<and>
      free_block_counts_m (fst (snd (allocate 64 (BaseMemoryPool_new, initial_memory)))) ! i
        = free_block_counts_m P2 ! i - 1 \<and>
      total_free_memory_m (fst (snd (allocate 64 (BaseMemoryPool_new, initial_memory))))
        = total_free_memory_m P2
            - blk_size (snd (snd (allocate 64 (BaseMemoryPool_new, initial_memory))))
                (free_lists_m P2 ! i) \<and>
      allocate_count_m (fst (snd (allocate 64 (BaseMemoryPool_new, initial_memory)))) = 1)"
proof -
  let ?A = "allocate 64 (BaseMemoryPool_new, initial_memory)"
  note t = allocate_behaviour [OF pool_ok_new]
  have big: "MAX_USER_SIZE < 4096" by (simp add: MAX_USER_SIZE_def)
  have a: "allocate 4096 (BaseMemoryPool_new, initial_memory)
             = (0, BaseMemoryPool_new, initial_memory)"
    using t [of 4096 initial_memory] big by blast
  have b: "allocate 0 (BaseMemoryPool_new, initial_memory)
     = allocate MIN_USER_SIZE (BaseMemoryPool_new, initial_memory)"
    using t [of 0 initial_memory] by blast
  have p: "fst ?A = 65552" by (rule allocate_64_fresh) simp
  then have pn: "fst ?A \<noteq> 0" by simp
  have c80: "alignUp ((if (64 :: size_t) = 0 then MIN_USER_SIZE else 64) + FREE_BLOCK_HEADER_SIZE)
               BLOCK_ALIGNMENT = 80"
    by (simp add: alignUp_def FREE_BLOCK_HEADER_SIZE_def BLOCK_ALIGNMENT_def)
  have f: "findBlockSizeIndex BaseMemoryPool_new 80 = Some 7"
    using find_seeded [of BaseMemoryPool_new 7] by (simp add: BaseMemoryPool_new_eq)
  then have add: "snd (addBlockSizeIfNotExist BaseMemoryPool_new 80) = BaseMemoryPool_new"
    by (simp add: add_existing)
  have z: "free_lists_m BaseMemoryPool_new ! 7 = 0" by (simp add: BaseMemoryPool_new_eq)
  have ac: "allocate_count_m BaseMemoryPool_new = 0" by (simp add: BaseMemoryPool_new_eq)
  have "?A = (fst ?A, fst (snd ?A), snd (snd ?A)) \<and> fst ?A \<noteq> 0" using pn by simp
  then obtain i P2 where r:
    "findBlockSizeIndex BaseMemoryPool_new 80 = Some i"
    "block_sizes_m P2 ! i = 80"
    "free_lists_m BaseMemoryPool_new ! i \<noteq> 0 \<and> P2 = BaseMemoryPool_new \<and>
       snd (snd ?A) = initial_memory \<or>
     free_lists_m BaseMemoryPool_new ! i = 0 \<and>
       allocateBatch 80 i (BaseMemoryPool_new, initial_memory) = (True, P2, snd (snd ?A))"
    "fst ?A = free_lists_m P2 ! i + FREE_BLOCK_HEADER_SIZE"
    "free_block_counts_m (fst (snd ?A)) ! i = free_block_counts_m P2 ! i - 1"
    "total_free_memory_m (fst (snd ?A))
       = total_free_memory_m P2 - blk_size (snd (snd ?A)) (free_lists_m P2 ! i)"
    "allocate_count_m (fst (snd ?A)) = allocate_count_m BaseMemoryPool_new + 1"
    using t [of 64 initial_memory "fst ?A" "fst (snd ?A)" "snd (snd ?A)"]
    unfolding Let_def c80 add by blast
  have i7: "i = 7" using r(1) f by simp
  have e: "\<exists>i P2. findBlockSizeIndex BaseMemoryPool_new 80 = Some i \<and>
      block_sizes_m P2 ! i = 80 \<and>
      allocateBatch 80 i (BaseMemoryPool_new, initial_memory) = (True, P2, snd (snd ?A)) \<and>
      fst ?A = free_lists_m P2 ! i + FREE_BLOCK_HEADER_SIZE \<and>
      free_block_counts_m (fst (snd ?A)) ! i = free_block_counts_m P2 ! i - 1 \<and>
      total_free_memory_m (fst (snd ?A))
        = total_free_memory_m P2 - blk_size (snd (snd ?A)) (free_lists_m P2 ! i) \<and>
      allocate_count_m (fst (snd ?A)) = 1"
    using r z ac unfolding i7 by (intro exI [of _ 7] exI [of _ P2]) simp
  show ?thesis using pool_ok_new big a b p pn e by blast
qed

lemma find_five_block: "findBlockSizeIndex five_block_pool 2064 = Some 0"
  by (simp add: findBlockSizeIndex_def lower_bound_def five_block_pool_def)

lemma find_empty_local: "findBlockSizeIndex empty_local_pool 2064 = Some 0"
  by (simp add: findBlockSizeIndex_def lower_bound_def empty_local_pool_def)

lemma direct_chunk_memory_eq:
  "direct_chunk_memory = initial_memory\<lparr>brk := 69536, live := [(65536, 4000)]\<rparr>"
  by (simp add: direct_chunk_memory_def sys_malloc_def fresh_chunk_def initial_memory_def
      alignUp_def)

text \<open>
  C2. \<open>deallocate(p)\<close> does nothing for a null \<open>p\<close>. When the header's size is zero or
  below the smallest class total, or no class has that size, \<open>p\<close> goes to \<open>free\<close>, which
  writes no header, and the pool stays as it was. Otherwise the block becomes the head of
  the class's freelist, in front of the blocks that were on it, the class's free count grows
  by one, \<open>total_free_memory_\<close> by the header's size and \<open>deallocate_count_\<close> by one, and
  nothing goes to \<open>free\<close>.
\<close>

theorem deallocate_behaviour:
  assumes "pool_ok P"
  shows "deallocate 0 (P, m) = Some (P, m) \<and>
    (p \<noteq> 0 \<and>
       (blk_size m (p - FREE_BLOCK_HEADER_SIZE) = 0 \<or>
        blk_size m (p - FREE_BLOCK_HEADER_SIZE) < calcAlignedTotalSize MIN_USER_SIZE \<or>
        findBlockSizeIndex P (blk_size m (p - FREE_BLOCK_HEADER_SIZE)) = None) \<longrightarrow>
       deallocate p (P, m) = map_option (Pair P) (sys_free p m) \<and>
       (\<forall>m'. sys_free p m = Some m' \<longrightarrow>
              blk_size m' = blk_size m \<and> blk_next m' = blk_next m)) \<and>
    (p \<noteq> 0 \<and> blk_size m (p - FREE_BLOCK_HEADER_SIZE) \<noteq> 0 \<and>
       calcAlignedTotalSize MIN_USER_SIZE \<le> blk_size m (p - FREE_BLOCK_HEADER_SIZE) \<and>
       findBlockSizeIndex P (blk_size m (p - FREE_BLOCK_HEADER_SIZE)) = Some i \<longrightarrow>
       (\<exists>P' m'. deallocate p (P, m) = Some (P', m') \<and>
          block_sizes_m P' = block_sizes_m P \<and>
          block_sizes_m P ! i = blk_size m (p - FREE_BLOCK_HEADER_SIZE) \<and>
          free_lists_m P' = (free_lists_m P)[i := p - FREE_BLOCK_HEADER_SIZE] \<and>
          free_lists_m P' ! i = p - FREE_BLOCK_HEADER_SIZE \<and>
          blk_next m' (p - FREE_BLOCK_HEADER_SIZE) = free_lists_m P ! i \<and>
          (\<forall>bs. p - FREE_BLOCK_HEADER_SIZE \<noteq> 0 \<and> p - FREE_BLOCK_HEADER_SIZE \<notin> set bs \<and>
                free_chain m (free_lists_m P ! i) bs \<longrightarrow>
                free_chain m' (free_lists_m P' ! i) ((p - FREE_BLOCK_HEADER_SIZE) # bs)) \<and>
          free_block_counts_m P' = (free_block_counts_m P)[i := free_block_counts_m P ! i + 1] \<and>
          free_block_counts_m P' ! i = free_block_counts_m P ! i + 1 \<and>
          total_free_memory_m P' =
            total_free_memory_m P + blk_size m (p - FREE_BLOCK_HEADER_SIZE) \<and>
          deallocate_count_m P' = deallocate_count_m P + 1 \<and>
          allocate_count_m P' = allocate_count_m P \<and>
          total_allocated_memory_m P' = total_allocated_memory_m P \<and>
          blk_size m' = blk_size m \<and> live m' = live m \<and> freed m' = freed m))"
proof (intro conjI impI allI)
  show "deallocate 0 (P, m) = Some (P, m)" by (simp add: deallocate_def)
next
  assume "p \<noteq> 0 \<and>
       (blk_size m (p - FREE_BLOCK_HEADER_SIZE) = 0 \<or>
        blk_size m (p - FREE_BLOCK_HEADER_SIZE) < calcAlignedTotalSize MIN_USER_SIZE \<or>
        findBlockSizeIndex P (blk_size m (p - FREE_BLOCK_HEADER_SIZE)) = None)"
  then show "deallocate p (P, m) = map_option (Pair P) (sys_free p m)"
    by (auto simp: deallocate_def Let_def split: option.splits)
next
  fix m' assume "sys_free p m = Some m'"
  then show "blk_size m' = blk_size m" "blk_next m' = blk_next m"
    using sys_free_headers by blast+
next
  let ?b = "p - FREE_BLOCK_HEADER_SIZE"
  assume a: "p \<noteq> 0 \<and> blk_size m ?b \<noteq> 0 \<and>
       calcAlignedTotalSize MIN_USER_SIZE \<le> blk_size m ?b \<and>
       findBlockSizeIndex P (blk_size m ?b) = Some i"
  let ?P' = "P\<lparr>free_lists_m := (free_lists_m P)[i := ?b],
               free_block_counts_m :=
                 (free_block_counts_m P)[i := free_block_counts_m P ! i + 1],
               total_free_memory_m := total_free_memory_m P + blk_size m ?b,
               deallocate_count_m := deallocate_count_m P + 1\<rparr>"
  let ?m' = "m\<lparr>blk_next := (blk_next m)(?b := free_lists_m P ! i)\<rparr>"
  have d: "deallocate p (P, m) = Some (?P', ?m')"
    using a by (simp add: deallocate_def Let_def not_less [symmetric])
  have i: "i < length (block_sizes_m P)" "block_sizes_m P ! i = blk_size m ?b"
    using find_SomeD [of P "blk_size m ?b" i] a by simp_all
  have len: "i < length (free_lists_m P)" "i < length (free_block_counts_m P)"
    using assms i by (simp_all add: pool_ok_def)
  have chain: "free_chain ?m' (free_lists_m ?P' ! i) (?b # bs)"
    if "?b \<noteq> 0 \<and> ?b \<notin> set bs \<and> free_chain m (free_lists_m P ! i) bs" for bs
  proof -
    have "free_chain ?m' (free_lists_m P ! i) bs = free_chain m (free_lists_m P ! i) bs"
      using that by (intro free_chain_cong) auto
    then show ?thesis using that len by simp
  qed
  show "\<exists>P' m'. deallocate p (P, m) = Some (P', m') \<and>
          block_sizes_m P' = block_sizes_m P \<and>
          block_sizes_m P ! i = blk_size m ?b \<and>
          free_lists_m P' = (free_lists_m P)[i := ?b] \<and>
          free_lists_m P' ! i = ?b \<and>
          blk_next m' ?b = free_lists_m P ! i \<and>
          (\<forall>bs. ?b \<noteq> 0 \<and> ?b \<notin> set bs \<and> free_chain m (free_lists_m P ! i) bs \<longrightarrow>
                free_chain m' (free_lists_m P' ! i) (?b # bs)) \<and>
          free_block_counts_m P' = (free_block_counts_m P)[i := free_block_counts_m P ! i + 1] \<and>
          free_block_counts_m P' ! i = free_block_counts_m P ! i + 1 \<and>
          total_free_memory_m P' = total_free_memory_m P + blk_size m ?b \<and>
          deallocate_count_m P' = deallocate_count_m P + 1 \<and>
          allocate_count_m P' = allocate_count_m P \<and>
          total_allocated_memory_m P' = total_allocated_memory_m P \<and>
          blk_size m' = blk_size m \<and> live m' = live m \<and> freed m' = freed m"
    by (intro exI [of _ ?P'] exI [of _ ?m'] conjI d allI impI chain) (use i len in simp_all)
qed

theorem deallocate_behaviour_witness:
  "pool_ok five_block_pool \<and>
   deallocate 0 (five_block_pool, five_block_memory) = Some (five_block_pool, five_block_memory) \<and>
   (65536 :: addr) \<noteq> 0 \<and> blk_size direct_chunk_memory (65536 - FREE_BLOCK_HEADER_SIZE) = 0 \<and>
   sys_free 65536 direct_chunk_memory =
     Some (initial_memory\<lparr>brk := 69536, freed := [(65536, 4000)]\<rparr>) \<and>
   deallocate 65536 (five_block_pool, direct_chunk_memory) =
     Some (five_block_pool, initial_memory\<lparr>brk := 69536, freed := [(65536, 4000)]\<rparr>) \<and>
   blk_size (initial_memory\<lparr>brk := 69536, freed := [(65536, 4000)]\<rparr>)
     = blk_size direct_chunk_memory \<and>
   (4112 :: addr) \<noteq> 0 \<and> blk_size initial_memory (4112 - FREE_BLOCK_HEADER_SIZE) = 0 \<and>
   sys_free 4112 initial_memory = None \<and>
   deallocate 4112 (five_block_pool, initial_memory) = None \<and>
   (24592 :: addr) \<noteq> 0 \<and> blk_size five_block_memory (24592 - FREE_BLOCK_HEADER_SIZE) \<noteq> 0 \<and>
   calcAlignedTotalSize MIN_USER_SIZE \<le> blk_size five_block_memory (24592 - FREE_BLOCK_HEADER_SIZE) \<and>
   findBlockSizeIndex five_block_pool (blk_size five_block_memory (24592 - FREE_BLOCK_HEADER_SIZE))
     = Some 0 \<and>
   (\<exists>P' m'. deallocate 24592 (five_block_pool, five_block_memory) = Some (P', m') \<and>
      free_lists_m P' ! 0 = 24576 \<and> free_block_counts_m P' ! 0 = 6 \<and>
      total_free_memory_m P' = 12384 \<and> deallocate_count_m P' = 6 \<and>
      free_chain m' (free_lists_m P' ! 0) [24576, 4096, 8192, 12288, 16384, 20480])"
proof -
  have ok: "pool_ok five_block_pool" by (simp add: pool_ok_def five_block_pool_def)
  note t0 = deallocate_behaviour [OF ok, of direct_chunk_memory 65536 0]
  note t1 = deallocate_behaviour [OF ok, of initial_memory 4112 0]
  note t2 = deallocate_behaviour [OF ok, of five_block_memory 24592 0]
  have a: "deallocate 0 (five_block_pool, five_block_memory)
             = Some (five_block_pool, five_block_memory)"
    using t2 by (rule conjunct1)
  have e: "(65536 :: addr) \<noteq> 0" "blk_size direct_chunk_memory (65536 - FREE_BLOCK_HEADER_SIZE) = 0"
    by (simp_all add: direct_chunk_memory_eq initial_memory_def)
  have e1: "sys_free 65536 direct_chunk_memory =
     Some (initial_memory\<lparr>brk := 69536, freed := [(65536, 4000)]\<rparr>)"
    by (simp add: sys_free_def direct_chunk_memory_eq initial_memory_def)
  have e2: "deallocate 65536 (five_block_pool, direct_chunk_memory) =
     map_option (Pair five_block_pool) (sys_free 65536 direct_chunk_memory)"
    using t0 e by blast
  have e3: "deallocate 65536 (five_block_pool, direct_chunk_memory) =
     Some (five_block_pool, initial_memory\<lparr>brk := 69536, freed := [(65536, 4000)]\<rparr>)"
    unfolding e2 e1 by simp
  have e4: "blk_size (initial_memory\<lparr>brk := 69536, freed := [(65536, 4000)]\<rparr>)
     = blk_size direct_chunk_memory"
    using t0 e e1 by blast
  have f: "(4112 :: addr) \<noteq> 0" "blk_size initial_memory (4112 - FREE_BLOCK_HEADER_SIZE) = 0"
    by (simp_all add: initial_memory_def)
  have f1: "sys_free 4112 initial_memory = None"
    by (simp add: sys_free_def initial_memory_def)
  have "deallocate 4112 (five_block_pool, initial_memory) =
     map_option (Pair five_block_pool) (sys_free 4112 initial_memory)"
    using t1 f by blast
  then have b: "deallocate 4112 (five_block_pool, initial_memory) = None"
    unfolding f1 by simp
  have g: "(24592 :: addr) \<noteq> 0"
    "blk_size five_block_memory (24592 - FREE_BLOCK_HEADER_SIZE) \<noteq> 0"
    "calcAlignedTotalSize MIN_USER_SIZE
       \<le> blk_size five_block_memory (24592 - FREE_BLOCK_HEADER_SIZE)"
    "findBlockSizeIndex five_block_pool
       (blk_size five_block_memory (24592 - FREE_BLOCK_HEADER_SIZE)) = Some 0"
    by (simp_all add: five_block_memory_def calc_min find_five_block)
  have ch: "24592 - FREE_BLOCK_HEADER_SIZE \<noteq> 0 \<and>
      24592 - FREE_BLOCK_HEADER_SIZE \<notin> set [4096, 8192, 12288, 16384, 20480 :: addr] \<and>
      free_chain five_block_memory (free_lists_m five_block_pool ! 0)
        [4096, 8192, 12288, 16384, 20480]"
    by (simp add: FREE_BLOCK_HEADER_SIZE_def five_block_pool_def five_block_memory_def)
  from t2 g obtain P' m' where
    d: "deallocate 24592 (five_block_pool, five_block_memory) = Some (P', m')"
    and r: "free_lists_m P' ! 0 = 24592 - FREE_BLOCK_HEADER_SIZE"
      "free_block_counts_m P' ! 0 = free_block_counts_m five_block_pool ! 0 + 1"
      "total_free_memory_m P' = total_free_memory_m five_block_pool
          + blk_size five_block_memory (24592 - FREE_BLOCK_HEADER_SIZE)"
      "deallocate_count_m P' = deallocate_count_m five_block_pool + 1"
    and c: "\<forall>bs. 24592 - FREE_BLOCK_HEADER_SIZE \<noteq> 0 \<and> 24592 - FREE_BLOCK_HEADER_SIZE \<notin> set bs \<and>
                free_chain five_block_memory (free_lists_m five_block_pool ! 0) bs \<longrightarrow>
                free_chain m' (free_lists_m P' ! 0) ((24592 - FREE_BLOCK_HEADER_SIZE) # bs)"
    by blast
  have e16: "(24592 :: addr) - FREE_BLOCK_HEADER_SIZE = 24576"
    by (simp add: FREE_BLOCK_HEADER_SIZE_def)
  have "free_chain m' (free_lists_m P' ! 0)
          ((24592 - FREE_BLOCK_HEADER_SIZE) # [4096, 8192, 12288, 16384, 20480])"
    using c ch by blast
  then have fc: "free_chain m' (free_lists_m P' ! 0) [24576, 4096, 8192, 12288, 16384, 20480]"
    unfolding e16 .
  have r': "free_lists_m P' ! 0 = 24576" "free_block_counts_m P' ! 0 = 6"
      "total_free_memory_m P' = 12384" "deallocate_count_m P' = 6"
    using r by (simp_all add: e16 five_block_pool_def five_block_memory_def)
  have "deallocate 24592 (five_block_pool, five_block_memory) = Some (P', m') \<and>
      free_lists_m P' ! 0 = 24576 \<and> free_block_counts_m P' ! 0 = 6 \<and>
      total_free_memory_m P' = 12384 \<and> deallocate_count_m P' = 6 \<and>
      free_chain m' (free_lists_m P' ! 0) [24576, 4096, 8192, 12288, 16384, 20480]"
    by (intro conjI d r' fc)
  then have ex: "\<exists>P' m'. deallocate 24592 (five_block_pool, five_block_memory) = Some (P', m') \<and>
      free_lists_m P' ! 0 = 24576 \<and> free_block_counts_m P' ! 0 = 6 \<and>
      total_free_memory_m P' = 12384 \<and> deallocate_count_m P' = 6 \<and>
      free_chain m' (free_lists_m P' ! 0) [24576, 4096, 8192, 12288, 16384, 20480]"
    by blast
  show ?thesis
    by (intro conjI ok a e e1 e3 e4 f f1 b g ex)
qed

lemma facade_deallocate_frame:
  assumes "MemoryManager_deallocate p s = Some s'"
  shows "global_pool s' = global_pool s \<and>
   (\<forall>k bs. free_chain (heap s) (free_lists_m (global_pool s) ! k) bs \<and>
            p - FREE_BLOCK_HEADER_SIZE \<notin> set bs \<longrightarrow>
            free_chain (heap s') (free_lists_m (global_pool s') ! k) bs)"
proof (cases "p = 0")
  case True
  then have "s' = s" using assms by (simp add: MemoryManager_deallocate_def)
  then show ?thesis by simp
next
  case False
  then obtain L m where d: "deallocate p (local_pool s, heap s) = Some (L, m)"
    and s': "s' = s\<lparr>local_pool := L, heap := m\<rparr>"
    using assms
    by (auto simp: MemoryManager_deallocate_def ThreadLocalMemoryPool_deallocate_def
        split: option.splits)
  have nx: "\<forall>x. x \<noteq> p - FREE_BLOCK_HEADER_SIZE \<longrightarrow> blk_next m x = blk_next (heap s) x"
    using d sys_free_headers [of p "heap s"]
    by (auto simp: deallocate_def Let_def split: if_splits option.splits)
  have "free_chain m a bs = free_chain (heap s) a bs"
    if nin: "p - FREE_BLOCK_HEADER_SIZE \<notin> set bs" for a bs
  proof (rule free_chain_cong, rule ballI)
    fix x assume "x \<in> set bs"
    then have "x \<noteq> p - FREE_BLOCK_HEADER_SIZE" using nin by blast
    then show "blk_next m x = blk_next (heap s) x" using nx by blast
  qed
  then show ?thesis by (simp add: s')
qed

text \<open>
  C10, as the code has it. Whenever \<open>MemoryManager::deallocate(p)\<close> returns, it has only
  reached the calling thread's local pool: the global pool object (its table, list heads
  and counters) is the same afterwards, and every global freelist that does not hold \<open>p\<close>'s
  own block still visits the same blocks. A global freelist that holds \<open>p\<close>'s block is cut
  or redirected at that block, whose \<open>next\<close> field the local pool overwrites.
\<close>

theorem facade_deallocate_leaves_global_pool:
  assumes "MemoryManager_deallocate p s = Some s'"
  shows "global_pool s' = global_pool s \<and>
   (\<forall>k bs. free_chain (heap s) (free_lists_m (global_pool s) ! k) bs \<and>
            p - FREE_BLOCK_HEADER_SIZE \<notin> set bs \<longrightarrow>
            free_chain (heap s') (free_lists_m (global_pool s') ! k) bs)"
  using assms by (rule facade_deallocate_frame)

lemma facade_example_24592:
  "MemoryManager_deallocate 24592 example_process =
     Some (example_process
       \<lparr>local_pool :=
          empty_local_pool\<lparr>free_lists_m := [24576], free_block_counts_m := [1],
            total_free_memory_m := 2064, deallocate_count_m := 1\<rparr>,
        heap := five_block_memory\<lparr>blk_next := (blk_next five_block_memory)(24576 := 0)\<rparr>\<rparr>)"
  by (simp add: MemoryManager_deallocate_def ThreadLocalMemoryPool_deallocate_def
      example_process_def deallocate_def Let_def FREE_BLOCK_HEADER_SIZE_def calc_min
      find_empty_local five_block_memory_def)
     (simp add: empty_local_pool_def)

lemma facade_example_4112:
  "MemoryManager_deallocate 4112 example_process =
     Some (example_process
       \<lparr>local_pool :=
          empty_local_pool\<lparr>free_lists_m := [4096], free_block_counts_m := [1],
            total_free_memory_m := 2064, deallocate_count_m := 1\<rparr>,
        heap := five_block_memory\<lparr>blk_next := (blk_next five_block_memory)(4096 := 0)\<rparr>\<rparr>)"
  by (simp add: MemoryManager_deallocate_def ThreadLocalMemoryPool_deallocate_def
      example_process_def deallocate_def Let_def FREE_BLOCK_HEADER_SIZE_def calc_min
      find_empty_local five_block_memory_def)
     (simp add: empty_local_pool_def)

theorem facade_deallocate_leaves_global_pool_witness:
  "MemoryManager_deallocate 24592 example_process =
     Some (example_process
       \<lparr>local_pool :=
          empty_local_pool\<lparr>free_lists_m := [24576], free_block_counts_m := [1],
            total_free_memory_m := 2064, deallocate_count_m := 1\<rparr>,
        heap := five_block_memory\<lparr>blk_next := (blk_next five_block_memory)(24576 := 0)\<rparr>\<rparr>) \<and>
   global_pool (the (MemoryManager_deallocate 24592 example_process)) = five_block_pool \<and>
   free_chain (heap example_process) (free_lists_m (global_pool example_process) ! 0)
     [4096, 8192, 12288, 16384, 20480] \<and>
   24592 - FREE_BLOCK_HEADER_SIZE \<notin> set [4096, 8192, 12288, 16384, 20480 :: addr] \<and>
   free_chain (heap (the (MemoryManager_deallocate 24592 example_process)))
     (free_lists_m (global_pool (the (MemoryManager_deallocate 24592 example_process))) ! 0)
     [4096, 8192, 12288, 16384, 20480]"
proof -
  let ?s' = "example_process
       \<lparr>local_pool :=
          empty_local_pool\<lparr>free_lists_m := [24576], free_block_counts_m := [1],
            total_free_memory_m := 2064, deallocate_count_m := 1\<rparr>,
        heap := five_block_memory\<lparr>blk_next := (blk_next five_block_memory)(24576 := 0)\<rparr>\<rparr>"
  note t = facade_deallocate_leaves_global_pool [OF facade_example_24592]
  have g: "global_pool ?s' = five_block_pool"
    using t by (simp add: example_process_def)
  have c: "free_chain (heap example_process) (free_lists_m (global_pool example_process) ! 0)
     [4096, 8192, 12288, 16384, 20480]"
    by (simp add: example_process_def five_block_pool_def five_block_memory_def)
  have n: "24592 - FREE_BLOCK_HEADER_SIZE \<notin> set [4096, 8192, 12288, 16384, 20480 :: addr]"
    by (simp add: FREE_BLOCK_HEADER_SIZE_def)
  have f: "free_chain (heap ?s') (free_lists_m (global_pool ?s') ! 0)
     [4096, 8192, 12288, 16384, 20480]"
    using t c n by blast
  show ?thesis
    unfolding facade_example_24592 option.sel
    by (intro conjI refl g c n f)
qed

theorem facade_deallocate_leaves_global_pool_counterexample:
  "MemoryManager_deallocate 4112 example_process \<noteq> None \<and>
   free_lists_m (global_pool example_process) ! 0 = 4096 \<and>
   free_block_counts_m (global_pool example_process) ! 0 = 5 \<and>
   free_chain (heap example_process) (free_lists_m (global_pool example_process) ! 0)
     [4096, 8192, 12288, 16384, 20480] \<and>
   free_lists_m (global_pool (the (MemoryManager_deallocate 4112 example_process))) ! 0 = 4096 \<and>
   free_block_counts_m (global_pool (the (MemoryManager_deallocate 4112 example_process))) ! 0
     = 5 \<and>
   free_chain (heap (the (MemoryManager_deallocate 4112 example_process)))
     (free_lists_m (global_pool (the (MemoryManager_deallocate 4112 example_process))) ! 0)
     [4096] \<and>
   \<not> free_chain (heap (the (MemoryManager_deallocate 4112 example_process)))
     (free_lists_m (global_pool (the (MemoryManager_deallocate 4112 example_process))) ! 0)
     [4096, 8192, 12288, 16384, 20480]"
  unfolding facade_example_4112 option.sel
  by (simp add: example_process_def five_block_pool_def five_block_memory_def)

section \<open>Running the operations on concrete states\<close>

lemma lookup_2064:
  "block_sizes_m P = seeded_sizes \<Longrightarrow> findBlockSizeIndex P 2064 = Some 255"
  using find_seeded [of P 255] by simp

lemma lookup_2048:
  "block_sizes_m P = seeded_sizes \<Longrightarrow> findBlockSizeIndex P 2048 = Some 253"
  using find_seeded [of P 253] by simp

lemma lookup_1024:
  "block_sizes_m P = seeded_sizes \<Longrightarrow> findBlockSizeIndex P 1024 = Some 125"
  using find_seeded [of P 125] by simp

lemma lookup_680:
  "block_sizes_m P = seeded_sizes \<Longrightarrow> findBlockSizeIndex P 680 = Some 82"
  using find_seeded [of P 82] by simp

lemma lookup_2040:
  "block_sizes_m P = seeded_sizes \<Longrightarrow> findBlockSizeIndex P 2040 = Some 252"
  using find_seeded [of P 252] by simp

lemma transferTo_only_class:
  assumes k: "k < length (free_lists_m S)"
    and others: "\<forall>i<length (free_lists_m S). i \<noteq> k \<longrightarrow> free_lists_m S ! i = 0"
  shows "transferTo (S, D, m) = transfer_class k (S, D, m)"
proof (cases "transfer_class k (S, D, m)")
  case None
  let ?n = "length (free_lists_m S)"
  have split: "[0 ..< ?n] = [0 ..< k] @ [k] @ [Suc k ..< ?n]"
    using k by (metis append_Cons append_Nil le_add1 less_imp_add_positive
        upt_add_eq_append upt_conv_Cons plus_nat.add_0 le0 less_or_eq_imp_le)
  have pre: "for_each transfer_class [0 ..< k] (S, D, m) = Some (S, D, m)"
    using k others by (intro for_each_id transfer_class_skip) simp
  show ?thesis
    unfolding transferTo_def by (simp add: split for_each_append pre None del: upt_Suc)
next
  case (Some t)
  obtain S' D' m' where t: "t = (S', D', m')" by (metis prod_cases3)
  have "free_lists_m S' = (free_lists_m S)[k := 0]"
  proof (cases "free_lists_m S ! k = 0")
    case True
    then have "S' = S" using Some t by (simp add: transfer_class_skip)
    then show ?thesis using True by (metis list_update_id)
  next
    case False
    show ?thesis
      by (rule transfer_class_move [OF Some [unfolded t] False]) simp
  qed
  then show ?thesis
    using transferTo_single [OF k others Some [unfolded t]] Some t by simp
qed

lemma calc_values:
  "calcAlignedTotalSize 2048 = 2064" "calcAlignedTotalSize 2032 = 2048"
  "calcAlignedTotalSize 1008 = 1024" "calcAlignedTotalSize 2024 = 2040"
  "calcAlignedTotalSize 664 = 680"
  by (simp_all add: calcAlignedTotalSize_def alignUp_def FREE_BLOCK_HEADER_SIZE_def
      BLOCK_ALIGNMENT_def)

lemma reclaim_only_class:
  assumes k: "k < length (block_sizes_m P)"
    and len: "length (free_block_counts_m P) = length (block_sizes_m P)"
    and others: "\<forall>i<length (block_sizes_m P). i \<noteq> k \<longrightarrow> settled P i"
  shows "reclaimIdleMemory (P, m) = reclaim_class k (0, P, m)"
proof -
  let ?n = "length (block_sizes_m P)"
  have split: "[0 ..< ?n] = [0 ..< k] @ [k] @ [Suc k ..< ?n]"
    using k by (metis append_Cons append_Nil le_add1 less_imp_add_positive
        upt_add_eq_append upt_conv_Cons plus_nat.add_0 le0 less_or_eq_imp_le)
  have pre: "for_each reclaim_class [0 ..< k] (0, P, m) = Some (0, P, m)"
    using k others by (intro for_each_id reclaim_class_settled) simp
  show ?thesis
  proof (cases "reclaim_class k (0, P, m)")
    case None
    then show ?thesis
      unfolding reclaimIdleMemory_def by (simp add: split for_each_append pre del: upt_Suc)
  next
    case (Some t)
    obtain r P' m' where t: "t = (r, P', m')" by (metis prod_cases3)
    have kc: "k < length (free_block_counts_m P)" using k len by simp
    note st = reclaim_class_step [OF Some [unfolded t] kc]
    have "settled P' i" if "Suc k \<le> i" "i < ?n" for i
    proof -
      have "settled P' i = settled P i" by (rule settled_cong) (use st that in auto)
      then show ?thesis using others that by simp
    qed
    then have post: "for_each reclaim_class [Suc k ..< ?n] (r, P', m') = Some (r, P', m')"
      by (intro for_each_id reclaim_class_settled) simp
    show ?thesis
      unfolding reclaimIdleMemory_def
      by (simp add: split for_each_append pre Some t post del: upt_Suc)
  qed
qed

lemma upt_small:
  "[0 ..< 2] = [0, 1]" "[0 ..< 4] = [0, 1, 2, 3]" "[0 ..< 6] = [0, 1, 2, 3, 4, 5]"
  by (simp_all add: upt_conv_Cons)

lemma list_update_collapse:
  "i \<noteq> j \<Longrightarrow> xs[i := a, j := b, i := c] = xs[j := b, i := c]"
  by (metis list_update_overwrite list_update_swap)

lemmas run_simps = upt_small list_update_collapse
  allocate_def deallocate_def allocateBatch_def thread_block_def sys_malloc_def fresh_chunk_def
  sys_free_def fits_def Let_def calc_min alignUp_page calc_values
  lookup_2064 lookup_2048 lookup_1024 lookup_680 lookup_2040
  reclaim_class_def reclaim_walk_pos settled_def nth_seeded
  MAX_USER_SIZE_def PAGE_SIZE_def FREE_BLOCK_HEADER_SIZE_def RESERVE_BLOCK_COUNT_def

lemma reclaim_scenario_run:
  "reclaim_scenario =
     Some (2064,
       \<lparr>block_sizes_m = seeded_sizes,
        free_lists_m = (replicate 256 0)[255 := 81920],
        free_block_counts_m = (replicate 256 0)[255 := 4],
        allocate_count_m = 5, deallocate_count_m = 5,
        total_free_memory_m = 8256, total_allocated_memory_m = 20480\<rparr>,
       \<lparr>blk_size = (\<lambda>_. 0)(65536 := 2064, 69632 := 2064, 73728 := 2064, 77824 := 2064,
                              81920 := 2064),
        blk_next = (\<lambda>_. 0)(65536 := 0, 69632 := 65536, 77824 := 73728, 81920 := 77824,
                              73728 := 0),
        brk = 86016,
        live = [(81920, 4096), (77824, 4096), (73728, 4096), (65536, 4096)],
        freed = [(69632, 4096)], choices = []\<rparr>)"
  by (simp add: reclaim_scenario_def run_simps BaseMemoryPool_new_eq initial_memory_def
    reclaim_only_class [where k = 255])


lemma reuse_scenario_run:
  "reuse_scenario =
     Some
      (\<lparr>block_sizes_m = seeded_sizes,
        free_lists_m = (replicate 256 0)[253 := 75776, 125 := 70656, 253 := 72704],
        free_block_counts_m = (replicate 256 0)[253 := 4, 125 := 3, 253 := 1],
        allocate_count_m = 10, deallocate_count_m = 6,
        total_free_memory_m = 6144, total_allocated_memory_m = 16384\<rparr>,
       \<lparr>blk_size =
          (\<lambda>_. 0)(65536 := 2048, 67584 := 2048, 73728 := 2048, 75776 := 2048,
                    69632 := 1024, 70656 := 1024, 71680 := 1024, 72704 := 1024),
        blk_next =
          (\<lambda>_. 0)(65536 := 0, 67584 := 65536, 73728 := 71680, 75776 := 73728,
                    69632 := 70656, 70656 := 71680, 72704 := 0, 71680 := 72704),
        brk = 77824, live = [(69632, 4096), (73728, 4096), (65536, 4096)],
        freed = [], choices = []\<rparr>)"
  by (simp add: reuse_scenario_def run_simps BaseMemoryPool_new_eq initial_memory_def
    reusing_memory_def reclaim_only_class [where k = 253])

section \<open>The invariants that reclaimIdleMemory breaks\<close>

text \<open>
  C3. The code breaks the claim. On a fresh pool, five \<open>allocate(2048)\<close> calls, the release of
  the five blocks in the order of allocation and one \<open>reclaimIdleMemory\<close> call return with
  \<open>free_block_counts_\<close> equal to 4 for the class of 2064-byte blocks, while its freelist
  holds three blocks: the walk towards the first block to release stops one block early, so
  the fourth block, which was to be kept, is the one handed to \<open>free\<close>, and the fifth is
  lost.
\<close>

theorem reclaim_leaves_count_above_length:
  "reclaim_scenario \<noteq> None \<and>
   fst (the reclaim_scenario) = 2064 \<and>
   block_sizes_m (fst (snd (the reclaim_scenario))) ! 255 = 2064 \<and>
   free_block_counts_m (fst (snd (the reclaim_scenario))) ! 255 = 4 \<and>
   free_chain (snd (snd (the reclaim_scenario)))
     (free_lists_m (fst (snd (the reclaim_scenario))) ! 255) [81920, 77824, 73728] \<and>
   length [81920, 77824, 73728 :: addr] = 3 \<and>
   freed (snd (snd (the reclaim_scenario))) = [(69632, 4096)] \<and>
   live (snd (snd (the reclaim_scenario))) =
     [(81920, 4096), (77824, 4096), (73728, 4096), (65536, 4096)]"
  by (simp add: reclaim_scenario_run nth_seeded)

text \<open>
  C4. The code breaks the claim. \<open>reclaimIdleMemory\<close> hands a page to \<open>free\<close> while a block
  of that page is still on the freelist. When \<open>malloc\<close> hands the page out again,
  \<open>allocateBatch\<close> writes the headers of another class over it, and the next \<open>allocate\<close>
  that pops the block subtracts the wrong size: after the run below the sum over the
  classes is 5120 and \<open>total_free_memory_\<close> is 6144.
\<close>

theorem reuse_breaks_free_sum:
  "reuse_scenario \<noteq> None \<and>
   blk_size (snd (the reuse_scenario)) 71680 = 1024 \<and>
   block_sizes_m (fst (the reuse_scenario)) ! 125 = 1024 \<and>
   block_sizes_m (fst (the reuse_scenario)) ! 253 = 2048 \<and>
   free_block_counts_m (fst (the reuse_scenario)) ! 125 = 3 \<and>
   free_block_counts_m (fst (the reuse_scenario)) ! 253 = 1 \<and>
   free_bytes (fst (the reuse_scenario)) = 5120 \<and>
   total_free_memory_m (fst (the reuse_scenario)) = 6144"
  by (simp add: reuse_scenario_run nth_seeded free_bytes_def weighted_sum_update
      weighted_sum_zero seeded_sizes_def)

lemma thread_scenario_run:
  "thread_scenario =
     Some
      (\<lparr>block_sizes_m = seeded_sizes,
        free_lists_m = (replicate 256 0)[82 := 68936],
        free_block_counts_m = (replicate 256 0)[82 := 6],
        allocate_count_m = 12, deallocate_count_m = 12,
        total_free_memory_m = 4080, total_allocated_memory_m = 8192\<rparr>,
       \<lparr>blk_size =
          (\<lambda>_. 0)(65536 := 680, 66216 := 680, 66896 := 680, 67576 := 680,
                    68256 := 680, 68936 := 680, 69632 := 680, 70312 := 680,
                    70992 := 680, 71672 := 680, 72352 := 680, 73032 := 680),
        blk_next =
          (\<lambda>_. 0)(65536 := 0, 66216 := 65536, 70312 := 66216, 70992 := 70312,
                    72352 := 70992, 73032 := 72352, 69632 := 73032,
                    66896 := 71672, 67576 := 66896, 68256 := 67576,
                    68936 := 68256, 71672 := 0),
        brk = 73728, live = [(65536, 4096)], freed = [(69632, 4096)],
        choices = [Reuse 0]\<rparr>)"
  by (simp add: thread_scenario_def run_simps BaseMemoryPool_new_eq initial_memory_def
    recycling_memory_def reclaim_only_class [where k = 82])

lemma global_scenario_run:
  "global_scenario =
     Some
      (\<lparr>block_sizes_m = seeded_sizes, free_lists_m = replicate 256 0,
        free_block_counts_m = (replicate 256 0)[82 := 1, 252 := 0],
        allocate_count_m = 7, deallocate_count_m = 0,
        total_free_memory_m = - 680, total_allocated_memory_m = 4096\<rparr>,
       \<lparr>blk_size =
          (\<lambda>_. 0)(65536 := 680, 66216 := 680, 66896 := 680, 67576 := 680,
                    68256 := 680, 68936 := 680, 70312 := 680, 70992 := 680,
                    72352 := 680, 73032 := 680, 69632 := 2040, 71672 := 2040),
        blk_next =
          (\<lambda>_. 0)(65536 := 0, 66216 := 65536, 70312 := 66216, 70992 := 70312,
                    72352 := 70992, 73032 := 72352, 66896 := 71672,
                    67576 := 66896, 68256 := 67576, 68936 := 68256, 71672 := 0,
                    69632 := 71672),
        brk = 73728, live = [(69632, 4096), (65536, 4096)], freed = [],
        choices = []\<rparr>)"
  by (simp add: global_scenario_def thread_scenario_run run_simps BaseMemoryPool_new_eq
    GlobalMemoryPool_transferFrom_def GlobalMemoryPool_deallocate_def getStats_def
    MAX_GLOBAL_FREE_MEMORY_def transferTo_only_class [where k = 82] transfer_class_def
    find_last.simps reclaim_only_class [where k = 82] nth_list_update)

text \<open>
  C5. The code breaks the claim, by the same defect. A thread's pool runs
  \<open>reclaimIdleMemory\<close>, which hands a page to \<open>free\<close> while a block of that page stays on the
  freelist, and is transferred into the global pool. When \<open>malloc\<close> hands the page out again
  for a class of larger blocks, the global pool pops that block twice, once from each class,
  and subtracts the larger size both times: \<open>total_free_memory_\<close> wraps below zero, and the
  \<open>GlobalMemoryPool::deallocate\<close> that follows returns with it far above
  \<open>MAX_GLOBAL_FREE_MEMORY\<close>, since \<open>reclaimIdleMemory\<close> finds no class to release from.
\<close>

theorem global_free_memory_exceeds_bound:
  "thread_scenario \<noteq> None \<and>
   block_sizes_m (fst (the thread_scenario)) ! 82 = 680 \<and>
   free_block_counts_m (fst (the thread_scenario)) ! 82 = 6 \<and>
   free_chain (snd (the thread_scenario)) (free_lists_m (fst (the thread_scenario)) ! 82)
     [68936, 68256, 67576, 66896, 71672] \<and>
   freed (snd (the thread_scenario)) = [(69632, 4096)] \<and>
   global_scenario \<noteq> None \<and>
   blk_size (snd (the global_scenario)) 71672 = 2040 \<and>
   total_free_memory (getStats (fst (the global_scenario))) = - 680 \<and>
   unat (total_free_memory (getStats (fst (the global_scenario)))) = 18446744073709550936 \<and>
   unat MAX_GLOBAL_FREE_MEMORY = 10485760 \<and>
   MAX_GLOBAL_FREE_MEMORY < total_free_memory (getStats (fst (the global_scenario)))"
  by (simp add: thread_scenario_run global_scenario_run getStats_def MAX_GLOBAL_FREE_MEMORY_def
      word_less_nat_alt nth_seeded)

section \<open>What transferTo moves\<close>















end
